(* ===== verification/HyCAN_Prelude.thy ===== *)
theory HyCAN_Prelude
  imports Main "HOL-Library.State_Monad" "HOL-Library.Word" "HOL-Library.Sublist"
begin

section \<open>Prelude: effects, results, strings\<close>

text \<open>
  What every component of the development shares: a weakest-precondition calculus for the
  state monad in which the effectful code is written, the \<open>tl::expected\<close> result type, C
  strings in fixed-size character arrays (\<open>std::strncpy\<close> and reading up to the terminator),
  and the decimal formatting of \<open>std::format\<close>.
\<close>

subsection \<open>Lists\<close>

text \<open>A log kept newest first, read oldest first.\<close>

lemma logged: "xs = rev ys \<longleftrightarrow> ys = rev xs"
  by auto

subsection \<open>Results\<close>

text \<open>\<open>tl::expected<T, E>\<close>: the error on the left, the value on the right.\<close>

type_synonym ('e, 'a) expected = "'e + 'a"

fun has_value :: "('e, 'a) expected \<Rightarrow> bool" where
  "has_value (Inl e) = False"
| "has_value (Inr x) = True"

lemma has_value_iff: "has_value r \<longleftrightarrow> (\<exists>x. r = Inr x)"
  by (cases r) auto

lemma has_value_unit [simp]: "has_value (r :: ('e, unit) expected) \<longleftrightarrow> r = Inr ()"
  by (cases r) auto

subsection \<open>Weakest preconditions\<close>

text \<open>
  \<open>wp m Q s\<close>: run from \<open>s\<close>, the computation \<open>m\<close> ends with a result and a state that satisfy
  \<open>Q\<close>. Computations of the state monad are total, so this is total correctness.
\<close>

named_theorems wp_rules

definition wp :: "('s, 'a) state \<Rightarrow> ('a \<Rightarrow> 's \<Rightarrow> bool) \<Rightarrow> 's \<Rightarrow> bool" where
  "wp m Q s = (case run_state m s of (r, t) \<Rightarrow> Q r t)"

lemma wp_return [wp_rules]: "wp (State_Monad.return x) Q s \<longleftrightarrow> Q x s"
  by (simp add: wp_def)

lemma wp_bind [wp_rules]: "wp (m \<bind> f) Q s \<longleftrightarrow> wp m (\<lambda>r. wp (f r) Q) s"
  by (simp add: wp_def split: prod.splits)

lemma wp_if [wp_rules]:
  "wp (if b then m else n) Q s \<longleftrightarrow> (if b then wp m Q s else wp n Q s)"
  by simp

lemma wp_case_sum [wp_rules]:
  "wp (case x of Inl e \<Rightarrow> f e | Inr y \<Rightarrow> g y) Q s
     \<longleftrightarrow> (case x of Inl e \<Rightarrow> wp (f e) Q s | Inr y \<Rightarrow> wp (g y) Q s)"
  by (cases x) simp_all

lemma wp_case_option [wp_rules]:
  "wp (case x of None \<Rightarrow> m | Some y \<Rightarrow> g y) Q s
     \<longleftrightarrow> (case x of None \<Rightarrow> wp m Q s | Some y \<Rightarrow> wp (g y) Q s)"
  by (cases x) simp_all

lemma wp_case_prod [wp_rules]:
  "wp (case x of (a, b) \<Rightarrow> f a b) Q s \<longleftrightarrow> (case x of (a, b) \<Rightarrow> wp (f a b) Q s)"
  by (cases x) simp

lemma wp_Let [wp_rules]: "wp (Let x f) Q s \<longleftrightarrow> (let y = x in wp (f y) Q s)"
  by simp

lemma wp_conseq: "wp m P s \<Longrightarrow> (\<And>r t. P r t \<Longrightarrow> Q r t) \<Longrightarrow> wp m Q s"
  by (auto simp: wp_def split: prod.splits)

lemma wp_conj: "wp m P s \<Longrightarrow> wp m Q s \<Longrightarrow> wp m (\<lambda>r t. P r t \<and> Q r t) s"
  by (auto simp: wp_def split: prod.splits)

lemma wp_run: "wp m Q s \<Longrightarrow> run_state m s = (r, t) \<Longrightarrow> Q r t"
  by (simp add: wp_def)

lemma wp_runI: "(\<And>r t. run_state m s = (r, t) \<Longrightarrow> Q r t) \<Longrightarrow> wp m Q s"
  by (auto simp: wp_def split: prod.splits)

lemma wp_fst_snd: "wp m Q s \<longleftrightarrow> Q (fst (run_state m s)) (snd (run_state m s))"
  by (simp add: wp_def split: prod.splits)

lemma wp_True [simp]: "wp m (\<lambda>_ _. True) s"
  by (simp add: wp_fst_snd)

lemma wp_any: "(\<And>r t. Q r t) \<Longrightarrow> wp m Q s"
  by (simp add: wp_fst_snd)

subsection \<open>C strings in fixed-size arrays\<close>

text \<open>The characters of a C string: those before the first NUL, or all of a view without one.\<close>

abbreviation NUL :: char where
  "NUL \<equiv> CHR 0x00"

definition cstr_chars :: "string \<Rightarrow> string" where
  "cstr_chars s = takeWhile (\<lambda>c. c \<noteq> NUL) s"

text \<open>\<open>std::strncpy (dst, src, n)\<close>: at most \<open>n\<close> characters, the rest of the \<open>n\<close> zeroed.\<close>

definition strncpy :: "string \<Rightarrow> nat \<Rightarrow> string" where
  "strncpy src n = (let s = take n (cstr_chars src) in s @ replicate (n - length s) NUL)"

text \<open>
  The idiom of the message constructors: \<open>strncpy (a, src, sizeof a - 1)\<close> followed by
  \<open>a[sizeof a - 1] = 0\<close>, for an array of \<open>n\<close> characters.
\<close>

definition fill_array :: "nat \<Rightarrow> string \<Rightarrow> string" where
  "fill_array n src = strncpy src (n - 1) @ [NUL]"

text \<open>Reading an array as a C string: \<open>None\<close> when no NUL ends it, so the read leaves the array.\<close>

definition c_str :: "string \<Rightarrow> string option" where
  "c_str a = (if NUL \<in> set a then Some (cstr_chars a) else None)"

lemma cstr_chars_no_NUL: "NUL \<notin> set (cstr_chars s)"
  unfolding cstr_chars_def by (auto dest: set_takeWhileD)

lemma cstr_chars_id: "NUL \<notin> set s \<Longrightarrow> cstr_chars s = s"
  unfolding cstr_chars_def by (auto simp: takeWhile_eq_all_conv)

lemma cstr_chars_append_NUL: "NUL \<notin> set s \<Longrightarrow> cstr_chars (s @ NUL # t) = s"
  unfolding cstr_chars_def by (subst takeWhile_append2) auto

lemma length_strncpy [simp]: "length (strncpy src n) = n"
  by (simp add: strncpy_def Let_def)

lemma length_fill_array: "0 < n \<Longrightarrow> length (fill_array n src) = n"
  by (simp add: fill_array_def)

lemma c_str_fill_array: "c_str (fill_array n src) = Some (take (n - 1) (cstr_chars src))"
proof -
  let ?s = "take (n - 1) (cstr_chars src)"
  have nul: "NUL \<notin> set ?s"
    using cstr_chars_no_NUL by (metis in_set_takeD)
  have t: "fill_array n src = ?s @ NUL # replicate (n - 1 - length ?s) NUL"
    by (simp add: fill_array_def strncpy_def Let_def replicate_append_same)
  show ?thesis
    using nul by (simp add: c_str_def t cstr_chars_append_NUL)
qed

lemma c_str_zeros: "0 < n \<Longrightarrow> c_str (replicate n NUL) = Some []"
  by (cases n) (auto simp: c_str_def cstr_chars_def)

lemma c_str_no_NUL: "c_str a = Some s \<Longrightarrow> NUL \<notin> set s"
  by (auto simp: c_str_def cstr_chars_no_NUL split: if_splits)

lemma c_str_length: "c_str a = Some s \<Longrightarrow> length s < length a"
proof -
  assume "c_str a = Some s"
  then have "NUL \<in> set a" and s: "s = takeWhile (\<lambda>c. c \<noteq> NUL) a"
    by (auto simp: c_str_def cstr_chars_def split: if_splits)
  then have "s \<noteq> a"
    using cstr_chars_no_NUL [of a] by (auto simp: cstr_chars_def)
  then show ?thesis
    unfolding s by (metis length_takeWhile_le le_neq_implies_less takeWhile_eq_take take_all_iff)
qed

subsection \<open>Formatting\<close>

text \<open>A single quotation mark of a message.\<close>

abbreviation quote :: string where
  "quote \<equiv> [CHR 0x27]"

text \<open>\<open>std::format ("{}", n)\<close> of an unsigned and of a signed integer.\<close>

definition digit :: "nat \<Rightarrow> char" where
  "digit d = char_of (48 + d)"

fun dec_nat :: "nat \<Rightarrow> string" where
  "dec_nat n = (if n < 10 then [digit n] else dec_nat (n div 10) @ [digit (n mod 10)])"

declare dec_nat.simps [simp del]

definition dec_int :: "int \<Rightarrow> string" where
  "dec_int i = (if i < 0 then CHR ''-'' # dec_nat (nat (- i)) else dec_nat (nat i))"

definition digit_value :: "char \<Rightarrow> nat" where
  "digit_value c = of_char c - 48"

definition parse_nat :: "string \<Rightarrow> nat" where
  "parse_nat s = foldl (\<lambda>n c. 10 * n + digit_value c) 0 s"

lemma digit_value_digit: "d < 10 \<Longrightarrow> digit_value (digit d) = d"
  by (simp add: digit_value_def digit_def)

lemma parse_dec_nat: "parse_nat (dec_nat n) = n"
proof (induction n rule: dec_nat.induct)
  case (1 n)
  then show ?case
    by (cases "n < 10")
      (simp_all add: dec_nat.simps [of n] parse_nat_def digit_value_digit)
qed

lemma digit_range: "d < 10 \<Longrightarrow> of_char (digit d) = (48 + d :: nat)"
  by (simp add: digit_def)

lemma dec_nat_digits: "c \<in> set (dec_nat n) \<Longrightarrow> 48 \<le> (of_char c :: nat) \<and> of_char c \<le> (57 :: nat)"
proof (induction n rule: dec_nat.induct)
  case (1 n)
  then show ?case
    by (cases "n < 10") (auto simp: dec_nat.simps [of n] digit_range)
qed

lemma dec_nat_nonempty: "dec_nat n \<noteq> []"
  by (subst dec_nat.simps) simp

lemma minus_not_dec_nat: "CHR ''-'' \<notin> set (dec_nat n)"
  using dec_nat_digits [of "CHR ''-''" n] by auto

lemma dec_int_inject: "dec_int i = dec_int j \<longleftrightarrow> i = j"
proof
  assume eq: "dec_int i = dec_int j"
  have hd: "dec_nat n \<noteq> CHR ''-'' # s" for n s
    using minus_not_dec_nat [of n] by (metis list.set_intros(1))
  from eq hd show "i = j"
    unfolding dec_int_def
    by (auto split: if_splits dest: arg_cong [where f = parse_nat] simp: parse_dec_nat)
      (metis hd)+
qed simp

lemma dec_int_chars: "c \<in> set (dec_int i) \<Longrightarrow> c = CHR ''-'' \<or> 48 \<le> (of_char c :: nat)"
  by (auto simp: dec_int_def split: if_splits dest: dec_nat_digits)

lemma dec_int_no_NUL: "NUL \<notin> set (dec_int i)"
  using dec_int_chars [of NUL i] by auto

lemma length_dec_nat: "n < 10 ^ k \<Longrightarrow> 0 < k \<Longrightarrow> length (dec_nat n) \<le> k"
proof (induction k arbitrary: n)
  case 0
  then show ?case by simp
next
  case (Suc k)
  show ?case
  proof (cases "n < 10")
    case True
    then show ?thesis by (simp add: dec_nat.simps [of n])
  next
    case False
    with Suc.prems have "0 < k" and "n div 10 < 10 ^ k"
      by (auto intro: Nat.gr0I)
    with Suc.IH [of "n div 10"] False show ?thesis
      by (simp add: dec_nat.simps [of n])
  qed
qed

lemma length_dec_int: "\<bar>i\<bar> < 10 ^ k \<Longrightarrow> 0 < k \<Longrightarrow> length (dec_int i) \<le> Suc k"
proof -
  assume i: "\<bar>i\<bar> < 10 ^ k" and k: "0 < k"
  have "nat \<bar>i\<bar> < 10 ^ k"
    using i by (simp add: nat_less_iff)
  then have "length (dec_nat (nat \<bar>i\<bar>)) \<le> k"
    using k by (rule length_dec_nat)
  then show ?thesis
    by (auto simp: dec_int_def)
qed

end
