(* ===== verification/HyCAN_OS.thy ===== *)
theory HyCAN_OS
  imports HyCAN_Prelude
begin

section \<open>The boundary of the program: system calls, libnl, threads\<close>

text \<open>
  The kernel, the C library, libnl-3 and the scheduling of threads are not part of the
  repository. Each call the code makes to them is a constructor of
  \<open>call\<close>, with the arguments the code passes; what comes back is a \<open>reply\<close>. The environment
  is a parameter of every definition: a record of type \<open>os\<close> whose function \<open>respond\<close> maps the
  history of calls and replies so far, and the next call, to its reply. A history is newest
  event first. Every theorem holds for every such environment, unless it names what it assumes
  of it.
\<close>

type_synonym byte = "8 word"

text \<open>Linux error numbers the code compares \<open>errno\<close> with.\<close>

abbreviation (input) EINTR :: int where "EINTR \<equiv> 4"
abbreviation (input) ENXIO :: int where "ENXIO \<equiv> 6"
abbreviation (input) EBADF :: int where "EBADF \<equiv> 9"
abbreviation (input) EAGAIN :: int where "EAGAIN \<equiv> 11"
abbreviation (input) EWOULDBLOCK :: int where "EWOULDBLOCK \<equiv> 11"
abbreviation (input) ENODEV :: int where "ENODEV \<equiv> 19"
abbreviation (input) EPIPE :: int where "EPIPE \<equiv> 32"
abbreviation (input) ENETDOWN :: int where "ENETDOWN \<equiv> 100"
abbreviation (input) ENOBUFS :: int where "ENOBUFS \<equiv> 105"

abbreviation (input) IFF_UP :: int where "IFF_UP \<equiv> 1"
abbreviation (input) EPOLLIN :: int where "EPOLLIN \<equiv> 1"
abbreviation (input) IFNAMSIZ :: nat where "IFNAMSIZ \<equiv> 16"

text \<open>\<open>struct can_frame\<close> of \<open>linux/can.h\<close>.\<close>

record can_frame =
  can_id :: "32 word"
  frame_len :: byte
  frame_pad :: byte
  frame_res0 :: byte
  frame_len8_dlc :: byte
  frame_data :: "byte list"

text \<open>Files, Unix-domain sockets, CAN sockets and the event loop.\<close>

datatype posix_call =
    SocketUnix
  | Close int
  | Unlink string
  | BindUnix int string
  | Listen int int
  | Chmod string nat
  | ConnectUnix int string
  | Select int int int
  | Accept int
  | Send int "byte list"
  | Recv int nat
  | SocketCan
  | IoctlIfindex int string
  | BindCan int int
  | FcntlGetFl int
  | FcntlSetFl int int
  | Read int nat
  | Write int "byte list"
  | EpollCreate int
  | Eventfd
  | EpollAdd int int
  | EpollWait int nat

text \<open>Processes, time and threads; a callback is the code a user registered.\<close>

datatype thread_call =
    Getpid
  | Geteuid
  | Kill int int
  | System string
  | SteadyClock
  | HighResolutionClock
  | GetNprocs
  | ThreadCounterFetchAdd
  | SetSchedFifo int
  | SetAffinity byte
  | MlockAll
  | ThreadSleep int
  | ThreadStart string
  | ThreadRequestStop string
  | ThreadJoin string
  | StopRequested
  | Callback nat can_frame

text \<open>libnl-3 and \<open>if_nametoindex\<close>; pointers are integers, the null pointer is 0.\<close>

datatype netlink_call =
    IfNametoindex string
  | NlSocketAlloc
  | NlConnect int
  | NlClose int
  | NlSocketFree int
  | LinkAllocCache int
  | NlCacheFree int
  | NlCacheRefill int int
  | LinkGetByName int string
  | LinkPut int
  | LinkGetFlags int
  | LinkAlloc
  | LinkSetUp int
  | LinkUnsetUp int
  | LinkChange int int int
  | LinkIsCan int
  | LinkSetType int string
  | LinkCanSetBitrate int "32 word"
  | LinkSetName int string
  | LinkAddCreate int int

datatype call = Posix posix_call | Thr thread_call | Nl netlink_call

text \<open>
  A reply: the value the call returns (a pointer for the calls that return one), the value of
  \<open>errno\<close> after it, and what it stores through a pointer argument (an interface index or a
  cache pointer in \<open>outv\<close>, received bytes in \<open>buf\<close>, the reported descriptors of
  \<open>epoll_wait\<close> with their event masks in \<open>evs\<close>).
\<close>

record reply =
  rv :: int
  eno :: int
  outv :: int
  buf :: "byte list"
  evs :: "(int \<times> int) list"

definition plain_reply :: "int \<Rightarrow> reply" where
  "plain_reply n = \<lparr>rv = n, eno = 0, outv = 0, buf = [], evs = []\<rparr>"

type_synonym event = "call \<times> reply"
type_synonym history = "event list"

text \<open>\<open>strerror\<close> and libnl's \<open>nl_geterror\<close> are functions of the environment.\<close>

record os =
  respond :: "history \<Rightarrow> call \<Rightarrow> reply"
  strerror :: "int \<Rightarrow> string"
  nl_geterror :: "int \<Rightarrow> string"

text \<open>
  One concrete environment, at which the theorems with assumptions are exercised: every call
  succeeds, descriptors are fresh, links exist and are down, nothing is received.
\<close>

definition sample_os :: os where
  "sample_os = \<lparr>respond = (\<lambda>h c. case c of
       Posix SocketUnix \<Rightarrow> plain_reply (10 + int (length h))
     | Posix SocketCan \<Rightarrow> plain_reply (10 + int (length h))
     | Posix (Accept _) \<Rightarrow> plain_reply (10 + int (length h))
     | Posix (EpollCreate _) \<Rightarrow> plain_reply (10 + int (length h))
     | Posix Eventfd \<Rightarrow> plain_reply (10 + int (length h))
     | Posix (Select _ _ _) \<Rightarrow> plain_reply 1
     | Posix (Send _ d) \<Rightarrow> plain_reply (int (length d))
     | Posix (Write _ d) \<Rightarrow> plain_reply (int (length d))
     | Posix (Read _ _) \<Rightarrow> (plain_reply (-1))\<lparr>eno := EAGAIN\<rparr>
     | Thr SteadyClock \<Rightarrow> plain_reply (int (length h))
     | Thr Getpid \<Rightarrow> plain_reply 4242
     | Thr GetNprocs \<Rightarrow> plain_reply 4
     | Nl NlSocketAlloc \<Rightarrow> plain_reply 5
     | Nl (LinkAllocCache _) \<Rightarrow> (plain_reply 0)\<lparr>outv := 6\<rparr>
     | Nl (LinkGetByName _ _) \<Rightarrow> plain_reply 7
     | Nl LinkAlloc \<Rightarrow> plain_reply 8
     | Nl (LinkIsCan _) \<Rightarrow> plain_reply 1
     | _ \<Rightarrow> plain_reply 0),
     strerror = (\<lambda>_. ''error''), nl_geterror = (\<lambda>_. ''error'')\<rparr>"

lemma plain_reply_simps [simp]:
  "rv (plain_reply n) = n" "eno (plain_reply n) = 0" "outv (plain_reply n) = 0"
  "buf (plain_reply n) = []" "evs (plain_reply n) = []"
  by (simp_all add: plain_reply_def)

type_synonym 'a io = "(history, 'a) state"

definition call_os :: "os \<Rightarrow> call \<Rightarrow> reply io" where
  "call_os K c = State (\<lambda>h. (respond K h c, (c, respond K h c) # h))"

abbreviation sys :: "os \<Rightarrow> posix_call \<Rightarrow> reply io" where
  "sys K c \<equiv> call_os K (Posix c)"

abbreviation thr :: "os \<Rightarrow> thread_call \<Rightarrow> reply io" where
  "thr K c \<equiv> call_os K (Thr c)"

abbreviation nl :: "os \<Rightarrow> netlink_call \<Rightarrow> reply io" where
  "nl K c \<equiv> call_os K (Nl c)"

lemma run_call_os [simp]:
  "run_state (call_os K c) h = (respond K h c, (c, respond K h c) # h)"
  by (simp add: call_os_def)

lemma wp_call_os:
  "(\<And>r. r = respond K h c \<Longrightarrow> Q r ((c, r) # h)) \<Longrightarrow> wp (call_os K c) Q h"
  by (simp add: wp_def)

text \<open>When what the environment answers does not matter to the fact proved.\<close>

lemma wp_call_os_any: "(\<And>r. Q r ((c, r) # h)) \<Longrightarrow> wp (call_os K c) Q h"
  by (rule wp_call_os)

text \<open>A read into a buffer overwrites its first bytes and leaves the rest.\<close>

definition overwrite :: "'a list \<Rightarrow> 'a list \<Rightarrow> 'a list" where
  "overwrite dst src = take (length dst) src @ drop (length src) dst"

lemma length_overwrite [simp]: "length (overwrite dst src) = length dst"
  by (simp add: overwrite_def)

lemma overwrite_full: "length src = length dst \<Longrightarrow> overwrite dst src = src"
  by (simp add: overwrite_def)

subsection \<open>Ledgers: what a history has opened and not yet closed\<close>

text \<open>
  A ledger sums, over a history, what each event adds to or takes from the count of a handle.
  \<open>fd_count h fd\<close> is the number of times \<open>h\<close> was given descriptor \<open>fd\<close> minus the number of
  times it closed it; \<open>link_refs\<close>, \<open>nl_socks\<close> and \<open>nl_caches\<close> count libnl's link
  references, netlink sockets and caches. A component that leaves a ledger as it found it
  neither leaks a handle nor releases one twice.
\<close>

type_synonym delta = "call \<Rightarrow> reply \<Rightarrow> int \<Rightarrow> int"

definition ledger :: "delta \<Rightarrow> history \<Rightarrow> int \<Rightarrow> int" where
  "ledger d h x = (\<Sum>(c, r) \<leftarrow> h. d c r x)"

lemma ledger_Nil [simp]: "ledger d [] x = 0"
  by (simp add: ledger_def)

lemma ledger_Cons [simp]: "ledger d ((c, r) # h) x = d c r x + ledger d h x"
  by (simp add: ledger_def)

definition gain :: "int \<Rightarrow> int \<Rightarrow> int" where
  "gain y x = (if y = x then 1 else 0)"

lemma gain_same [simp]: "gain x x = 1"
  by (simp add: gain_def)

definition fd_delta :: delta where
  "fd_delta c r x = (case c of
     Posix p \<Rightarrow> (case p of
         SocketUnix \<Rightarrow> (if rv r = -1 then 0 else gain (rv r) x)
       | SocketCan \<Rightarrow> (if rv r = -1 then 0 else gain (rv r) x)
       | Accept _ \<Rightarrow> (if rv r = -1 then 0 else gain (rv r) x)
       | EpollCreate _ \<Rightarrow> (if rv r = -1 then 0 else gain (rv r) x)
       | Eventfd \<Rightarrow> (if rv r = -1 then 0 else gain (rv r) x)
       | Close fd \<Rightarrow> (if fd = -1 then 0 else - gain fd x)
       | _ \<Rightarrow> 0)
   | _ \<Rightarrow> 0)"

definition link_delta :: delta where
  "link_delta c r x = (case c of
     Nl p \<Rightarrow> (case p of
         LinkGetByName _ _ \<Rightarrow> (if rv r = 0 then 0 else gain (rv r) x)
       | LinkAlloc \<Rightarrow> (if rv r = 0 then 0 else gain (rv r) x)
       | LinkPut l \<Rightarrow> - gain l x
       | _ \<Rightarrow> 0)
   | _ \<Rightarrow> 0)"

definition nlsock_delta :: delta where
  "nlsock_delta c r x = (case c of
     Nl p \<Rightarrow> (case p of
         NlSocketAlloc \<Rightarrow> (if rv r = 0 then 0 else gain (rv r) x)
       | NlSocketFree l \<Rightarrow> - gain l x
       | _ \<Rightarrow> 0)
   | _ \<Rightarrow> 0)"

definition nlcache_delta :: delta where
  "nlcache_delta c r x = (case c of
     Nl p \<Rightarrow> (case p of
         LinkAllocCache _ \<Rightarrow> (if rv r < 0 \<or> outv r = 0 then 0 else gain (outv r) x)
       | NlCacheFree l \<Rightarrow> - gain l x
       | _ \<Rightarrow> 0)
   | _ \<Rightarrow> 0)"

text \<open>The ledgers are computed call by call; what a whole ledger is, is not unfolded.\<close>

lemma fd_delta_simps [simp]:
  "fd_delta (Posix p) r x = (case p of
         SocketUnix \<Rightarrow> (if rv r = -1 then 0 else gain (rv r) x)
       | SocketCan \<Rightarrow> (if rv r = -1 then 0 else gain (rv r) x)
       | Accept _ \<Rightarrow> (if rv r = -1 then 0 else gain (rv r) x)
       | EpollCreate _ \<Rightarrow> (if rv r = -1 then 0 else gain (rv r) x)
       | Eventfd \<Rightarrow> (if rv r = -1 then 0 else gain (rv r) x)
       | Close fd \<Rightarrow> (if fd = -1 then 0 else - gain fd x)
       | _ \<Rightarrow> 0)"
  "fd_delta (Thr t) r x = 0"
  "fd_delta (Nl l) r x = 0"
  by (simp_all add: fd_delta_def)

lemma link_delta_simps [simp]:
  "link_delta (Nl p) r x = (case p of
         LinkGetByName _ _ \<Rightarrow> (if rv r = 0 then 0 else gain (rv r) x)
       | LinkAlloc \<Rightarrow> (if rv r = 0 then 0 else gain (rv r) x)
       | LinkPut l \<Rightarrow> - gain l x
       | _ \<Rightarrow> 0)"
  "link_delta (Thr t) r x = 0"
  "link_delta (Posix q) r x = 0"
  by (simp_all add: link_delta_def)

lemma nlsock_delta_simps [simp]:
  "nlsock_delta (Nl p) r x = (case p of
         NlSocketAlloc \<Rightarrow> (if rv r = 0 then 0 else gain (rv r) x)
       | NlSocketFree l \<Rightarrow> - gain l x
       | _ \<Rightarrow> 0)"
  "nlsock_delta (Thr t) r x = 0"
  "nlsock_delta (Posix q) r x = 0"
  by (simp_all add: nlsock_delta_def)

lemma nlcache_delta_simps [simp]:
  "nlcache_delta (Nl p) r x = (case p of
         LinkAllocCache _ \<Rightarrow> (if rv r < 0 \<or> outv r = 0 then 0 else gain (outv r) x)
       | NlCacheFree l \<Rightarrow> - gain l x
       | _ \<Rightarrow> 0)"
  "nlcache_delta (Thr t) r x = 0"
  "nlcache_delta (Posix q) r x = 0"
  by (simp_all add: nlcache_delta_def)

abbreviation fd_count :: "history \<Rightarrow> int \<Rightarrow> int" where
  "fd_count \<equiv> ledger fd_delta"

abbreviation link_refs :: "history \<Rightarrow> int \<Rightarrow> int" where
  "link_refs \<equiv> ledger link_delta"

abbreviation nl_socks :: "history \<Rightarrow> int \<Rightarrow> int" where
  "nl_socks \<equiv> ledger nlsock_delta"

abbreviation nl_caches :: "history \<Rightarrow> int \<Rightarrow> int" where
  "nl_caches \<equiv> ledger nlcache_delta"

text \<open>The contribution of a handle a component owns: nothing for an invalid one.\<close>

definition owned :: "int \<Rightarrow> int \<Rightarrow> int" where
  "owned fd x = (if fd = -1 then 0 else gain fd x)"

lemma owned_invalid [simp]: "owned (-1) x = 0"
  by (simp add: owned_def)

lemma owned_valid: "fd \<noteq> -1 \<Longrightarrow> owned fd x = gain fd x"
  by (simp add: owned_def)

text \<open>
  \<open>unchanged f m\<close>: from any history, \<open>m\<close> leaves the value of \<open>f\<close> as it found it; \<open>keeps d\<close> says
  so of the ledger \<open>d\<close>. The rules follow the shape of the code, so a proof is one \<open>intro\<close> over
  the definition.
\<close>

named_theorems keeps_rules

definition unchanged :: "(history \<Rightarrow> 'b) \<Rightarrow> 'a io \<Rightarrow> bool" where
  "unchanged f m \<longleftrightarrow> (\<forall>h. wp m (\<lambda>_ h'. f h' = f h) h)"

abbreviation keeps :: "delta \<Rightarrow> 'a io \<Rightarrow> bool" where
  "keeps d \<equiv> unchanged (ledger d)"

lemma keepsI: "(\<And>h. wp m (\<lambda>_ h'. f h' = f h) h) \<Longrightarrow> unchanged f m"
  by (simp add: unchanged_def)

lemma keepsD: "unchanged f m \<Longrightarrow> wp m (\<lambda>_ h'. f h' = f h) h"
  by (simp add: unchanged_def)

lemma keeps_return [keeps_rules]: "unchanged f (State_Monad.return x)"
  by (simp add: unchanged_def wp_rules)

lemma keeps_bind [keeps_rules]:
  assumes "unchanged f m" and "\<And>r. unchanged f (g r)"
  shows "unchanged f (m \<bind> g)"
proof (rule keepsI, unfold wp_rules)
  fix h
  show "wp m (\<lambda>r. wp (g r) (\<lambda>_ h'. f h' = f h)) h"
    using keepsD [OF assms(1)]
  proof (rule wp_conseq)
    fix r t
    assume "f t = f h"
    then show "wp (g r) (\<lambda>_ h'. f h' = f h) t"
      using keepsD [OF assms(2), of r t] by simp
  qed
qed

lemma keeps_if [keeps_rules]:
  "(b \<Longrightarrow> unchanged f m) \<Longrightarrow> (\<not> b \<Longrightarrow> unchanged f n) \<Longrightarrow> unchanged f (if b then m else n)"
  by simp

lemma keeps_case_option [keeps_rules]:
  "unchanged f m \<Longrightarrow> (\<And>y. unchanged f (g y))
     \<Longrightarrow> unchanged f (case x of None \<Rightarrow> m | Some y \<Rightarrow> g y)"
  by (cases x) simp_all

lemma keeps_case_sum [keeps_rules]:
  "(\<And>e. unchanged f (m e)) \<Longrightarrow> (\<And>y. unchanged f (g y))
     \<Longrightarrow> unchanged f (case x of Inl e \<Rightarrow> m e | Inr y \<Rightarrow> g y)"
  by (cases x) simp_all

lemma keeps_case_prod [keeps_rules]:
  "(\<And>a b. unchanged f (g a b)) \<Longrightarrow> unchanged f (case x of (a, b) \<Rightarrow> g a b)"
  by (cases x) simp

lemma keeps_Let [keeps_rules]: "(\<And>y. unchanged f (g y)) \<Longrightarrow> unchanged f (Let x g)"
  by simp

lemma keeps_call [keeps_rules]: "(\<And>r x. d c r x = 0) \<Longrightarrow> keeps d (call_os K c)"
  by (auto simp: unchanged_def wp_def)

lemma unchanged_call: "(\<And>r h. f ((c, r) # h) = f h) \<Longrightarrow> unchanged f (call_os K c)"
  by (auto simp: unchanged_def wp_def)

subsection \<open>Calls made by a computation\<close>

text \<open>
  The events a computation adds to the history it starts from, oldest first: what it did, in
  the order it did it.
\<close>

definition calls_of :: "'a io \<Rightarrow> history \<Rightarrow> call list" where
  "calls_of m h = (let t = snd (run_state m h) in rev (map fst (take (length t - length h) t)))"

end
