(* ===== verification/Error_Types.thy ===== *)
theory Error_Types
  imports HyCAN_Prelude
begin

section \<open>Error codes\<close>

text \<open>\<open>Util/Error.hpp\<close>: the error codes of the library and the error value it returns.\<close>

datatype ErrorCode =
    VCANCheckingError
  | VCANCreationError
  | NlSocketAllocError
  | NlConnectError
  | RtnlLinkAllocError
  | RtnlLinkAddError
  | NetlinkSocketNotInitialized
  | NetlinkConnectError
  | NetlinkInterfaceNotFound
  | NetlinkBringDownError
  | NetlinkBringUpError
  | CANSocketCreateError
  | CANInterfaceIndexError
  | CANSocketBindError
  | CANSocketWriteError
  | CANSocketBufferFull
  | CANInvalidSocketError
  | CANFlushError
  | EpollError
  | ReaperStopError
  | MemoryLockError
  | ThreadRealTimeError
  | CPUAffinityError
  | EmptyFuncError
  | FuncCANIdSetError

record Error =
  code :: ErrorCode
  message :: string

definition mk_error :: "ErrorCode \<Rightarrow> string \<Rightarrow> Error" where
  "mk_error c msg = \<lparr>code = c, message = msg\<rparr>"

lemma code_mk_error [simp]: "code (mk_error c m) = c"
  by (simp add: mk_error_def)

lemma message_mk_error [simp]: "message (mk_error c m) = m"
  by (simp add: mk_error_def)

end
