(* ===== verification/Messages.thy ===== *)
theory Messages
  imports HyCAN_OS
begin

unbundle bit_operations_syntax

section \<open>Messages between the library and the daemon\<close>

text \<open>
  \<open>include/HyCAN/Daemon/Message.hpp\<close>: the request and response structures, their
  constructors, and their object representation. The code sends a structure by passing its
  address and \<open>sizeof\<close> to \<open>send\<close>, so the bytes on the socket are the x86-64 System V layout of
  the structure (the library builds for x86 only: \<open>SpinLock\<close> uses an x86 builtin). Padding
  bytes carry no information and are taken as zero; no decoder reads them.
\<close>

subsection \<open>Structures and constructors\<close>

datatype RequestType =
    SET_INTERFACE_STATE
  | CHECK_INTERFACE_STATE
  | VALIDATE_CAN_HARDWARE
  | CREATE_VCAN_INTERFACE
  | CLIENT_REGISTER
  | INTERFACE_EXISTS
  | INTERFACE_IS_UP

text \<open>\<open>enum class RequestType : uint8_t\<close>: the value of each enumerator.\<close>

fun type_code :: "RequestType \<Rightarrow> byte" where
  "type_code SET_INTERFACE_STATE = 0"
| "type_code CHECK_INTERFACE_STATE = 1"
| "type_code VALIDATE_CAN_HARDWARE = 2"
| "type_code CREATE_VCAN_INTERFACE = 3"
| "type_code CLIENT_REGISTER = 4"
| "type_code INTERFACE_EXISTS = 5"
| "type_code INTERFACE_IS_UP = 6"

text \<open>
  The enumerator a byte names, if any: an object of the enumeration type may hold any value of
  \<open>uint8_t\<close>, and one received from a socket holds whatever was sent.
\<close>

definition type_of_code :: "byte \<Rightarrow> RequestType option" where
  "type_of_code b =
     (if b = 0 then Some SET_INTERFACE_STATE
      else if b = 1 then Some CHECK_INTERFACE_STATE
      else if b = 2 then Some VALIDATE_CAN_HARDWARE
      else if b = 3 then Some CREATE_VCAN_INTERFACE
      else if b = 4 then Some CLIENT_REGISTER
      else if b = 5 then Some INTERFACE_EXISTS
      else if b = 6 then Some INTERFACE_IS_UP
      else None)"

lemma type_of_code_type_code [simp]: "type_of_code (type_code t) = Some t"
  by (cases t) (simp_all add: type_of_code_def)

declare type_code.simps [simp del]

lemma type_of_code_Some: "type_of_code b = Some t \<longleftrightarrow> b = type_code t"
  by (cases t) (auto simp: type_of_code_def type_code.simps)

lemma type_code_inject [simp]: "type_code t = type_code u \<longleftrightarrow> t = u"
  by (metis type_of_code_type_code option.inject)

text \<open>The enumerators in the order of their values; the bytes above the last name none.\<close>

instantiation RequestType :: linorder
begin

definition less_eq_RequestType :: "RequestType \<Rightarrow> RequestType \<Rightarrow> bool" where
  "less_eq_RequestType t u \<longleftrightarrow> type_code t \<le> type_code u"

definition less_RequestType :: "RequestType \<Rightarrow> RequestType \<Rightarrow> bool" where
  "less_RequestType t u \<longleftrightarrow> type_code t < type_code u"

instance
  by standard (auto simp: less_eq_RequestType_def less_RequestType_def order.strict_iff_order)

end

lemma greatest_request_type: "t \<le> INTERFACE_IS_UP"
  by (cases t) (simp_all add: less_eq_RequestType_def type_code.simps)

lemma type_of_code_None: "type_of_code b = None \<longleftrightarrow> type_code INTERFACE_IS_UP < b"
proof
  assume "type_code INTERFACE_IS_UP < b"
  then have "b \<noteq> type_code t" for t
    using greatest_request_type [of t] by (auto simp: less_eq_RequestType_def)
  then show "type_of_code b = None"
    using type_of_code_Some [of b] by (cases "type_of_code b") auto
next
  assume none: "type_of_code b = None"
  have "unat b \<noteq> n" if "n < 7" for n
    using none that by (auto simp: type_of_code_def word_unat_eq_iff split: if_splits)
  then have "7 \<le> unat b"
    using not_less by blast
  then show "type_code INTERFACE_IS_UP < b"
    by (simp add: type_code.simps word_less_nat_alt)
qed

text \<open>\<open>int\<close>, \<open>pid_t\<close> and \<open>uint32_t\<close> are 32-bit words; the first two are read with \<open>sint\<close>.\<close>

record ClientRegisterRequest =
  client_pid :: "32 word"

definition mk_register_request :: "32 word \<Rightarrow> ClientRegisterRequest" where
  "mk_register_request pid = \<lparr>client_pid = pid\<rparr>"

record ClientRegisterResponse =
  reg_result :: "32 word"
  client_channel_name :: string

definition mk_register_response :: "32 word \<Rightarrow> string \<Rightarrow> ClientRegisterResponse" where
  "mk_register_response res channel_name =
     \<lparr>reg_result = res,
      client_channel_name =
        (if channel_name \<noteq> [] then fill_array 64 channel_name else replicate 64 NUL)\<rparr>"

record NetlinkRequest =
  operation :: byte
  req_up :: bool
  set_bitrate :: bool
  bitrate :: "32 word"
  interface_name :: string

text \<open>The default constructor: every member zero.\<close>

definition default_request :: NetlinkRequest where
  "default_request =
     \<lparr>operation = type_code SET_INTERFACE_STATE, req_up = False, set_bitrate = False,
      bitrate = 0, interface_name = replicate IFNAMSIZ NUL\<rparr>"

definition mk_set_request :: "string \<Rightarrow> bool \<Rightarrow> bool \<Rightarrow> 32 word \<Rightarrow> NetlinkRequest" where
  "mk_set_request name state bitrate_flag rate =
     \<lparr>operation = type_code SET_INTERFACE_STATE, req_up = state, set_bitrate = bitrate_flag,
      bitrate = rate, interface_name = fill_array IFNAMSIZ name\<rparr>"

definition mk_query_request :: "RequestType \<Rightarrow> string \<Rightarrow> NetlinkRequest" where
  "mk_query_request op name =
     \<lparr>operation = type_code op, req_up = False, set_bitrate = False, bitrate = 0,
      interface_name = fill_array IFNAMSIZ name\<rparr>"

record NetlinkResponse =
  result :: "32 word"
  exists :: bool
  is_up :: bool
  error_message :: string

definition mk_response :: "32 word \<Rightarrow> string \<Rightarrow> NetlinkResponse" where
  "mk_response res msg =
     \<lparr>result = res, exists = False, is_up = False,
      error_message = (if msg \<noteq> [] then fill_array 256 msg else replicate 256 NUL)\<rparr>"

definition mk_query_response :: "32 word \<Rightarrow> bool \<Rightarrow> bool \<Rightarrow> NetlinkResponse" where
  "mk_query_response res interface_exists interface_up =
     \<lparr>result = res, exists = interface_exists, is_up = interface_up,
      error_message = replicate 256 NUL\<rparr>"

lemma result_mk_response [simp]: "result (mk_response r m) = r"
  by (simp add: mk_response_def)

lemma result_mk_query_response [simp]:
  "result (mk_query_response r e u) = r"
  "exists (mk_query_response r e u) = e"
  "is_up (mk_query_response r e u) = u"
  by (simp_all add: mk_query_response_def)

lemma request_fields [simp]:
  "operation (mk_set_request n s f r) = type_code SET_INTERFACE_STATE"
  "req_up (mk_set_request n s f r) = s"
  "set_bitrate (mk_set_request n s f r) = f"
  "bitrate (mk_set_request n s f r) = r"
  "operation (mk_query_request op n) = type_code op"
  by (simp_all add: mk_set_request_def mk_query_request_def)

lemma length_interface_name [simp]:
  "length (interface_name (mk_set_request n s f r)) = IFNAMSIZ"
  "length (interface_name (mk_query_request op n)) = IFNAMSIZ"
  by (simp_all add: mk_set_request_def mk_query_request_def length_fill_array)

subsection \<open>Object representation\<close>

definition le32 :: "32 word \<Rightarrow> byte list" where
  "le32 w = [ucast w, ucast (drop_bit 8 w), ucast (drop_bit 16 w), ucast (drop_bit 24 w)]"

definition of_le32 :: "byte list \<Rightarrow> 32 word" where
  "of_le32 bs = (case bs of
     [a, b, c, d] \<Rightarrow>
       ucast a OR push_bit 8 (ucast b) OR push_bit 16 (ucast c) OR push_bit 24 (ucast d)
   | _ \<Rightarrow> 0)"

definition byte_of_char :: "char \<Rightarrow> byte" where
  "byte_of_char c = of_nat (of_char c)"

definition char_of_byte :: "byte \<Rightarrow> char" where
  "char_of_byte b = char_of (unat b)"

definition byte_of_bool :: "bool \<Rightarrow> byte" where
  "byte_of_bool b = (if b then 1 else 0)"

definition bool_of_byte :: "byte \<Rightarrow> bool" where
  "bool_of_byte b = (b \<noteq> 0)"

lemma length_le32 [simp]: "length (le32 w) = 4"
  by (simp add: le32_def)

lemma of_le32_le32 [simp]: "of_le32 (le32 w) = w"
proof (rule bit_word_eqI)
  fix n
  assume "n < LENGTH(32)"
  then consider "n < 8" | "8 \<le> n" "n < 16" | "16 \<le> n" "n < 24" | "24 \<le> n" "n < 32"
    by fastforce
  then show "bit (of_le32 (le32 w)) n = bit w n"
    by cases (auto simp: of_le32_def le32_def bit_simps)
qed

lemma char_of_byte_of_char [simp]: "char_of_byte (byte_of_char c) = c"
  by (simp add: char_of_byte_def byte_of_char_def unat_of_nat)

lemma bool_of_byte_of_bool [simp]: "bool_of_byte (byte_of_bool b) = b"
  by (simp add: bool_of_byte_def byte_of_bool_def)

lemma map_char_of_byte [simp]: "map (char_of_byte \<circ> byte_of_char) s = s"
  by (simp add: comp_def)

definition encode_register_request :: "ClientRegisterRequest \<Rightarrow> byte list" where
  "encode_register_request m = le32 (client_pid m)"

definition decode_register_request :: "byte list \<Rightarrow> ClientRegisterRequest" where
  "decode_register_request bs = \<lparr>client_pid = of_le32 (take 4 bs)\<rparr>"

definition encode_register_response :: "ClientRegisterResponse \<Rightarrow> byte list" where
  "encode_register_response m = le32 (reg_result m) @ map byte_of_char (client_channel_name m)"

definition decode_register_response :: "byte list \<Rightarrow> ClientRegisterResponse" where
  "decode_register_response bs =
     \<lparr>reg_result = of_le32 (take 4 bs),
      client_channel_name = map char_of_byte (take 64 (drop 4 bs))\<rparr>"

definition encode_request :: "NetlinkRequest \<Rightarrow> byte list" where
  "encode_request m =
     [operation m, byte_of_bool (req_up m), byte_of_bool (set_bitrate m), 0]
       @ le32 (bitrate m) @ map byte_of_char (interface_name m)"

definition decode_request :: "byte list \<Rightarrow> NetlinkRequest" where
  "decode_request bs =
     \<lparr>operation = bs ! 0, req_up = bool_of_byte (bs ! 1), set_bitrate = bool_of_byte (bs ! 2),
      bitrate = of_le32 (take 4 (drop 4 bs)),
      interface_name = map char_of_byte (take IFNAMSIZ (drop 8 bs))\<rparr>"

definition encode_response :: "NetlinkResponse \<Rightarrow> byte list" where
  "encode_response m =
     le32 (result m) @ [byte_of_bool (exists m), byte_of_bool (is_up m)]
       @ map byte_of_char (error_message m) @ [0, 0]"

definition decode_response :: "byte list \<Rightarrow> NetlinkResponse" where
  "decode_response bs =
     \<lparr>result = of_le32 (take 4 bs), exists = bool_of_byte (bs ! 4),
      is_up = bool_of_byte (bs ! 5),
      error_message = map char_of_byte (take 256 (drop 6 bs))\<rparr>"

text \<open>\<open>sizeof\<close> of the four structures.\<close>

definition sizeof_ClientRegisterRequest :: nat where
  "sizeof_ClientRegisterRequest = 4"

definition sizeof_ClientRegisterResponse :: nat where
  "sizeof_ClientRegisterResponse = 68"

definition sizeof_NetlinkRequest :: nat where
  "sizeof_NetlinkRequest = 24"

definition sizeof_NetlinkResponse :: nat where
  "sizeof_NetlinkResponse = 264"

lemmas sizeof_defs = sizeof_ClientRegisterRequest_def sizeof_ClientRegisterResponse_def
  sizeof_NetlinkRequest_def sizeof_NetlinkResponse_def

text \<open>The arrays of a structure have the length of their declaration.\<close>

definition wf_register_request :: "ClientRegisterRequest \<Rightarrow> bool" where
  "wf_register_request m \<longleftrightarrow> True"

definition wf_register_response :: "ClientRegisterResponse \<Rightarrow> bool" where
  "wf_register_response m \<longleftrightarrow> length (client_channel_name m) = 64"

definition wf_request :: "NetlinkRequest \<Rightarrow> bool" where
  "wf_request m \<longleftrightarrow> length (interface_name m) = IFNAMSIZ"

definition wf_response :: "NetlinkResponse \<Rightarrow> bool" where
  "wf_response m \<longleftrightarrow> length (error_message m) = 256"

lemma wf_constructors [simp]:
  "wf_register_request (mk_register_request pid)"
  "wf_register_response (mk_register_response res name)"
  "wf_request default_request"
  "wf_request (mk_set_request n s f r)"
  "wf_request (mk_query_request op n)"
  "wf_response (mk_response res msg)"
  "wf_response (mk_query_response res e u)"
  by (simp_all add: wf_register_request_def wf_register_response_def wf_request_def
      wf_response_def mk_register_response_def default_request_def mk_response_def
      mk_query_response_def length_fill_array)

subsection \<open>The interface of a wire format\<close>

text \<open>
  What the receiving code relies on: a structure has a fixed size, its bytes read back to the
  structure, and the test \<open>bytes_received == sizeof (T)\<close> is all it checks. \<open>receive\<close> is that
  test.
\<close>

definition receive :: "nat \<Rightarrow> (byte list \<Rightarrow> 'm) \<Rightarrow> int \<Rightarrow> byte list \<Rightarrow> 'm option" where
  "receive sz dec n bs = (if n = int sz then Some (dec bs) else None)"

locale wire_format =
  fixes enc :: "'m \<Rightarrow> byte list"
    and dec :: "byte list \<Rightarrow> 'm"
    and wf :: "'m \<Rightarrow> bool"
    and sz :: nat
  assumes enc_length: "wf m \<Longrightarrow> length (enc m) = sz"
    and dec_enc: "wf m \<Longrightarrow> dec (enc m) = m"
    and dec_wf: "length bs = sz \<Longrightarrow> wf (dec bs)"
begin

lemma receive_sent: "wf m \<Longrightarrow> receive sz dec (int (length (enc m))) (enc m) = Some m"
  by (simp add: receive_def enc_length dec_enc)

lemma enc_inject: "wf m \<Longrightarrow> wf m' \<Longrightarrow> enc m = enc m' \<longleftrightarrow> m = m'"
  by (metis dec_enc)

lemma receive_partial: "n \<noteq> int sz \<Longrightarrow> receive sz dec n bs = None"
  by (simp add: receive_def)

lemma receive_wf: "receive sz dec n bs = Some m \<Longrightarrow> n = int (length bs) \<Longrightarrow> wf m"
  by (auto simp: receive_def dec_wf split: if_splits)

end

interpretation register_request:
  wire_format encode_register_request decode_register_request wf_register_request
    sizeof_ClientRegisterRequest
  by unfold_locales
    (simp_all add: encode_register_request_def decode_register_request_def sizeof_defs
      wf_register_request_def)

interpretation register_response:
  wire_format encode_register_response decode_register_response wf_register_response
    sizeof_ClientRegisterResponse
  by unfold_locales
    (simp_all add: encode_register_response_def decode_register_response_def sizeof_defs
      wf_register_response_def)

interpretation request:
  wire_format encode_request decode_request wf_request sizeof_NetlinkRequest
proof unfold_locales
  show "length (encode_request m) = sizeof_NetlinkRequest" if "wf_request m" for m
    using that by (simp add: encode_request_def sizeof_defs wf_request_def)
  show "decode_request (encode_request m) = m" if "wf_request m" for m
    using that
    by (simp add: encode_request_def decode_request_def wf_request_def
        nth_append numeral_eq_Suc)
  show "wf_request (decode_request bs)" if "length bs = sizeof_NetlinkRequest" for bs
    using that by (simp add: decode_request_def sizeof_defs wf_request_def)
qed

interpretation response:
  wire_format encode_response decode_response wf_response sizeof_NetlinkResponse
proof unfold_locales
  show "length (encode_response m) = sizeof_NetlinkResponse" if "wf_response m" for m
    using that by (simp add: encode_response_def sizeof_defs wf_response_def)
  show "decode_response (encode_response m) = m" if "wf_response m" for m
    using that
    by (simp add: encode_response_def decode_response_def wf_response_def nth_append)
  show "wf_response (decode_response bs)" if "length bs = sizeof_NetlinkResponse" for bs
    using that by (simp add: decode_response_def sizeof_defs wf_response_def)
qed

text \<open>The four sizes differ, so no structure is ever taken for another.\<close>

lemma sizeof_distinct:
  "distinct [sizeof_ClientRegisterRequest, sizeof_ClientRegisterResponse,
     sizeof_NetlinkRequest, sizeof_NetlinkResponse]"
  by (simp add: sizeof_defs)

subsection \<open>Names\<close>

text \<open>What the daemon reads from the name field of a request the client constructed.\<close>

lemma c_str_request_name [simp]:
  "c_str (interface_name (mk_set_request n s f r)) = Some (take 15 (cstr_chars n))"
  "c_str (interface_name (mk_query_request op n)) = Some (take 15 (cstr_chars n))"
  by (simp_all add: mk_set_request_def mk_query_request_def c_str_fill_array)

lemma c_str_channel_name:
  "c_str (client_channel_name (mk_register_response r n)) = Some (take 63 (cstr_chars n))"
  by (cases "n = []")
    (simp_all add: mk_register_response_def c_str_fill_array c_str_zeros cstr_chars_def)

text \<open>Every array a constructor fills ends with a terminator.\<close>

lemma constructors_terminated:
  "NUL \<in> set (client_channel_name (mk_register_response r n))"
  "NUL \<in> set (error_message (mk_response r m))"
  "NUL \<in> set (error_message (mk_query_response r e u))"
  by (simp_all add: mk_register_response_def mk_response_def mk_query_response_def fill_array_def)

end
