(* ===== verification/Unix_Socket.thy ===== *)
theory Unix_Socket
  imports HyCAN_OS
begin

section \<open>Unix-domain sockets\<close>

text \<open>
  \<open>Daemon/UnixSocket/UnixSocket.hpp\<close> and \<open>.cpp\<close>: the stream sockets the daemon and the library
  talk over. An object is a record; an operation that changes it returns the changed object. A
  destructor is \<open>unix_destroy\<close>, run where the C++ object's lifetime ends.
\<close>

subsection \<open>The object and its operations\<close>

datatype Mode = SERVER | CLIENT

record unix_socket =
  socket_fd :: int
  socket_path :: string
  mode :: Mode
  connected :: bool

definition mk_unix_socket :: "string \<Rightarrow> Mode \<Rightarrow> unix_socket" where
  "mk_unix_socket path m =
     \<lparr>socket_fd = -1, socket_path = ''/run/hycan_'' @ path, mode = m, connected = False\<rparr>"

definition mk_accepted_socket :: "int \<Rightarrow> string \<Rightarrow> unix_socket" where
  "mk_accepted_socket fd path =
     \<lparr>socket_fd = fd, socket_path = path, mode = CLIENT, connected = True\<rparr>"

text \<open>\<open>socket_path_.c_str ()\<close>, as a system call reads it.\<close>

abbreviation path_c_str :: "unix_socket \<Rightarrow> string" where
  "path_c_str s \<equiv> cstr_chars (socket_path s)"

definition unix_close :: "os \<Rightarrow> unix_socket \<Rightarrow> unix_socket io" where
  "unix_close K s = do {
     (if socket_fd s \<noteq> -1
      then do { _ \<leftarrow> sys K (Close (socket_fd s)); State_Monad.return () }
      else State_Monad.return ());
     (if mode s = SERVER \<and> socket_path s \<noteq> []
      then do { _ \<leftarrow> sys K (Unlink (path_c_str s)); State_Monad.return () }
      else State_Monad.return ());
     State_Monad.return (s\<lparr>socket_fd := -1, connected := False\<rparr>)
   }"

definition unix_destroy :: "os \<Rightarrow> unix_socket \<Rightarrow> unit io" where
  "unix_destroy K s = do { _ \<leftarrow> unix_close K s; State_Monad.return () }"

text \<open>
  The moves give the new object and the one moved from; \<open>residue\<close> is what the library leaves in
  the moved-from string, which the standard does not specify.
\<close>

definition unix_move :: "string \<Rightarrow> unix_socket \<Rightarrow> unix_socket \<times> unix_socket" where
  "unix_move residue other =
     (\<lparr>socket_fd = socket_fd other, socket_path = socket_path other, mode = mode other,
       connected = connected other\<rparr>,
      other\<lparr>socket_fd := -1, socket_path := residue, connected := False\<rparr>)"

definition unix_move_assign ::
  "os \<Rightarrow> string \<Rightarrow> unix_socket \<Rightarrow> unix_socket \<Rightarrow> (unix_socket \<times> unix_socket) io" where
  "unix_move_assign K residue this other = do {
     this \<leftarrow> unix_close K this;
     State_Monad.return
       (this\<lparr>socket_fd := socket_fd other, socket_path := socket_path other,
          mode := mode other, connected := connected other\<rparr>,
        other\<lparr>socket_fd := -1, socket_path := residue, connected := False\<rparr>)
   }"

text \<open>\<open>sizeof addr.sun_path\<close> is 108; the address is \<open>None\<close> when the path does not fit.\<close>

definition sun_path_size :: nat where
  "sun_path_size = 108"

definition setup_address :: "unix_socket \<Rightarrow> string option" where
  "setup_address s =
     (if sun_path_size \<le> length (socket_path s) then None else Some (path_c_str s))"

definition initialize :: "os \<Rightarrow> unix_socket \<Rightarrow> (bool \<times> unix_socket) io" where
  "initialize K s = do {
     r \<leftarrow> sys K SocketUnix;
     let s = s\<lparr>socket_fd := rv r\<rparr>;
     if socket_fd s = -1 then State_Monad.return (False, s)
     else case setup_address s of
       None \<Rightarrow> do { s \<leftarrow> unix_close K s; State_Monad.return (False, s) }
     | Some addr \<Rightarrow>
         (if mode s = SERVER then do {
            _ \<leftarrow> sys K (Unlink (path_c_str s));
            b \<leftarrow> sys K (BindUnix (socket_fd s) addr);
            if rv b = -1
            then do { s \<leftarrow> unix_close K s; State_Monad.return (False, s) }
            else do {
              l \<leftarrow> sys K (Listen (socket_fd s) 5);
              if rv l = -1
              then do { s \<leftarrow> unix_close K s; State_Monad.return (False, s) }
              else do {
                _ \<leftarrow> sys K (Chmod (path_c_str s) 438);
                State_Monad.return (True, s\<lparr>connected := True\<rparr>)
              }
            }
          } else do {
            c \<leftarrow> sys K (ConnectUnix (socket_fd s) addr);
            if rv c = -1
            then do { s \<leftarrow> unix_close K s; State_Monad.return (False, s) }
            else State_Monad.return (True, s\<lparr>connected := True\<rparr>)
          })
   }"

text \<open>
  The wait before \<open>accept\<close> and \<open>recv\<close>: \<open>select\<close> on the one descriptor, with the timeout split
  into seconds and microseconds; \<open>None\<close> without a timeout.
\<close>

definition wait_readable :: "os \<Rightarrow> int \<Rightarrow> int \<Rightarrow> int option io" where
  "wait_readable K fd timeout_ms =
     (if timeout_ms > 0 then do {
        r \<leftarrow> sys K (Select fd (timeout_ms div 1000) (timeout_ms mod 1000 * 1000));
        State_Monad.return (Some (rv r))
      } else State_Monad.return None)"

definition unix_accept :: "os \<Rightarrow> unix_socket \<Rightarrow> int \<Rightarrow> unix_socket option io" where
  "unix_accept K s timeout_ms =
     (if mode s \<noteq> SERVER \<or> \<not> connected s then State_Monad.return None
      else do {
        w \<leftarrow> wait_readable K (socket_fd s) timeout_ms;
        if (case w of None \<Rightarrow> False | Some res \<Rightarrow> res \<le> 0) then State_Monad.return None
        else do {
          a \<leftarrow> sys K (Accept (socket_fd s));
          if rv a = -1 then State_Monad.return None
          else State_Monad.return (Some (mk_accepted_socket (rv a) (socket_path s)))
        }
      })"

definition unix_send :: "os \<Rightarrow> unix_socket \<Rightarrow> byte list \<Rightarrow> int io" where
  "unix_send K s data =
     (if \<not> connected s \<or> socket_fd s = -1 then State_Monad.return (-1)
      else do { r \<leftarrow> sys K (Send (socket_fd s) data); State_Monad.return (rv r) })"

text \<open>The number of bytes received, and the bytes stored in the caller's buffer.\<close>

definition unix_recv :: "os \<Rightarrow> unix_socket \<Rightarrow> nat \<Rightarrow> int \<Rightarrow> (int \<times> byte list) io" where
  "unix_recv K s n timeout_ms =
     (if \<not> connected s \<or> socket_fd s = -1 then State_Monad.return (-1, [])
      else do {
        w \<leftarrow> wait_readable K (socket_fd s) timeout_ms;
        if (case w of None \<Rightarrow> False | Some res \<Rightarrow> res \<le> 0)
        then State_Monad.return (case w of None \<Rightarrow> 0 | Some res \<Rightarrow> res, [])
        else do {
          r \<leftarrow> sys K (Recv (socket_fd s) n);
          State_Monad.return (rv r, buf r)
        }
      })"

definition unix_recv_vector :: "os \<Rightarrow> unix_socket \<Rightarrow> nat \<Rightarrow> int \<Rightarrow> byte list io" where
  "unix_recv_vector K s max_size timeout_ms = do {
     (bytes_received, bytes) \<leftarrow> unix_recv K s max_size timeout_ms;
     if bytes_received \<le> 0 then State_Monad.return []
     else State_Monad.return
       (take (nat bytes_received) (overwrite (replicate max_size 0) bytes))
   }"

subsection \<open>Descriptors and results\<close>

lemmas socket_defs = mk_unix_socket_def mk_accepted_socket_def unix_close_def unix_destroy_def
  setup_address_def

lemma wp_unix_close:
  "wp (unix_close K s)
     (\<lambda>s' h'. s' = s\<lparr>socket_fd := -1, connected := False\<rparr>
        \<and> fd_count h' = (\<lambda>x. fd_count h x - owned (socket_fd s) x)) h"
  by (auto simp: unix_close_def wp_rules owned_def fun_eq_iff intro!: wp_call_os)

lemma wp_unix_destroy:
  "wp (unix_destroy K s) (\<lambda>_ h'. fd_count h' = (\<lambda>x. fd_count h x - owned (socket_fd s) x)) h"
  unfolding unix_destroy_def wp_rules
  by (rule wp_conseq [OF wp_unix_close]) simp

lemma wp_initialize:
  "wp (initialize K s)
     (\<lambda>(ok, s') h'. fd_count h' = (\<lambda>x. fd_count h x + owned (socket_fd s') x)
        \<and> ok = (socket_fd s' \<noteq> -1) \<and> (ok \<longrightarrow> connected s')
        \<and> (connected s' \<longrightarrow> ok \<or> connected s)
        \<and> mode s' = mode s \<and> socket_path s' = socket_path s) h"
  unfolding initialize_def unix_close_def setup_address_def
  by (auto simp: wp_rules owned_def fun_eq_iff Let_def intro!: wp_call_os split: if_splits)

lemma keeps_wait_readable [keeps_rules]: "keeps d (wait_readable K fd t)"
  if "\<And>a b r x. d (Posix (Select fd a b)) r x = 0"
  unfolding wait_readable_def by (intro keeps_rules that)

lemma keeps_unix_send [keeps_rules]: "keeps fd_delta (unix_send K s data)"
  unfolding unix_send_def by (intro keeps_rules) simp

lemma keeps_unix_recv [keeps_rules]: "keeps fd_delta (unix_recv K s n t)"
  unfolding unix_recv_def by (intro keeps_rules) simp_all

lemma socket_ops_unchanged:
  assumes "\<And>p r h. f ((Posix p, r) # h) = f h"
  shows "unchanged f (initialize K s)" "unchanged f (unix_destroy K s)"
    "unchanged f (unix_send K s b)" "unchanged f (unix_recv K s n t)"
  unfolding initialize_def unix_destroy_def unix_close_def unix_send_def unix_recv_def
    wait_readable_def
  by (intro keeps_rules unchanged_call assms)+

text \<open>What is only learnt by receiving stays as it is through every other operation.\<close>

lemma not_receiving:
  assumes "\<And>p r h. (\<forall>fd n. p \<noteq> Recv fd n) \<Longrightarrow> f ((Posix p, r) # h) = f h"
  shows "unchanged f (initialize K s)" "unchanged f (unix_destroy K s)" "unchanged f (unix_send K s b)"
    "unchanged f (unix_accept K s t)"
  unfolding initialize_def unix_destroy_def unix_close_def unix_send_def unix_accept_def wait_readable_def
  by (intro keeps_rules unchanged_call assms; simp)+

lemma wp_unix_accept:
  "wp (unix_accept K s t)
     (\<lambda>r h'. fd_count h' = (\<lambda>x. fd_count h x
          + (case r of None \<Rightarrow> 0 | Some c \<Rightarrow> owned (socket_fd c) x))
        \<and> (\<forall>c. r = Some c \<longrightarrow> c = mk_accepted_socket (socket_fd c) (socket_path s)
               \<and> socket_fd c \<noteq> -1 \<and> mode s = SERVER \<and> connected s)) h"
  unfolding unix_accept_def wait_readable_def
  by (auto simp: wp_rules owned_def fun_eq_iff mk_accepted_socket_def intro!: wp_call_os)

lemma mk_accepted_socket_simps [simp]:
  "socket_fd (mk_accepted_socket fd p) = fd"
  "mode (mk_accepted_socket fd p) = CLIENT"
  "connected (mk_accepted_socket fd p)"
  by (simp_all add: mk_accepted_socket_def)

lemma mk_unix_socket_simps [simp]:
  "socket_fd (mk_unix_socket p m) = -1"
  "mode (mk_unix_socket p m) = m"
  "\<not> connected (mk_unix_socket p m)"
  by (simp_all add: mk_unix_socket_def)

subsection \<open>The interface its clients use: acquire, use, release\<close>

text \<open>
  The library and the daemon hold a socket in a \<open>unique_ptr\<close> whose destructor runs at the end of
  the scope. What such a client relies on is that acquiring adds exactly the handle the object
  then owns and releasing takes exactly that one away; a body that keeps the ledger then leaves
  the descriptor table as it was, on every path.
\<close>

locale scoped_handle =
  fixes acquire :: "'s \<Rightarrow> (bool \<times> 's) io"
    and release :: "'s \<Rightarrow> unit io"
    and handle :: "'s \<Rightarrow> int"
  assumes acquire_ledger:
      "wp (acquire s) (\<lambda>(ok, s') h'. fd_count h' = (\<lambda>x. fd_count h x + owned (handle s') x)) h"
    and release_ledger:
      "wp (release s) (\<lambda>_ h'. fd_count h' = (\<lambda>x. fd_count h x - owned (handle s) x)) h"
begin

lemma scope_balanced:
  assumes body: "\<And>ok s. keeps fd_delta (body ok s)"
  shows "keeps fd_delta
    (acquire s \<bind> (\<lambda>(ok, s). body ok s \<bind> (\<lambda>r. release s \<bind> (\<lambda>_. State_Monad.return (g r)))))"
  unfolding unchanged_def wp_bind wp_case_prod wp_return
  by (auto intro!: wp_conseq [OF acquire_ledger] wp_conseq [OF keepsD [OF body]]
      wp_conseq [OF release_ledger] split: prod.splits)

end

interpretation unix_handle: scoped_handle "initialize K" "unix_destroy K" socket_fd for K
proof unfold_locales
  show "wp (initialize K s)
      (\<lambda>(ok, s') h'. fd_count h' = (\<lambda>x. fd_count h x + owned (socket_fd s') x)) h" for s h
    by (rule wp_conseq [OF wp_initialize]) auto
  show "wp (unix_destroy K s)
      (\<lambda>_ h'. fd_count h' = (\<lambda>x. fd_count h x - owned (socket_fd s) x)) h" for s h
    by (rule wp_unix_destroy)
qed

subsection \<open>Properties\<close>

text \<open>C38: Whatever becomes of \<open>initialize\<close>, a socket of either mode that is initialized and then
  destroyed leaves the descriptor table as it was: every failure path closes what it opened,
  once. After a failure the object owns no descriptor and is not connected; after a success it
  owns one and is.\<close>

theorem initialize_destroy_balanced:
  "wp (initialize K (mk_unix_socket name m))
     (\<lambda>(ok, s) h'. ok = (socket_fd s \<noteq> -1) \<and> ok = connected s
        \<and> fd_count h' = (\<lambda>x. fd_count h x + owned (socket_fd s) x)
        \<and> wp (unix_destroy K s) (\<lambda>_ h''. fd_count h'' = fd_count h) h') h"
  by (rule wp_conseq [OF wp_initialize])
    (auto intro!: wp_conseq [OF wp_unix_destroy])

text \<open>A server socket that initializes has removed a stale socket file, bound its path,
  listened with a backlog of five and opened the file to every user, in this order, and nothing
  else; in particular the path is unlinked before it is bound, and a failing \<open>chmod\<close> is not a
  failure.\<close>

theorem server_initialize_sequence:
  "wp (initialize K (mk_unix_socket name SERVER))
     (\<lambda>(ok, s) h'. let p = cstr_chars (''/run/hycan_'' @ name) in
        ok \<longrightarrow> map fst h' = map Posix [Chmod p 438, Listen (socket_fd s) 5,
                 BindUnix (socket_fd s) p, Unlink p, SocketUnix] @ map fst h) h"
  unfolding initialize_def unix_close_def setup_address_def mk_unix_socket_def
  by (auto simp: wp_rules Let_def intro!: wp_call_os)

theorem server_initialize_sequence_witness:
  "wp (initialize sample_os (mk_unix_socket ''daemon'' SERVER))
     (\<lambda>(ok, s) h'. ok \<and> map fst h' = map Posix [Chmod ''/run/hycan_daemon'' 438, Listen 10 5,
         BindUnix 10 ''/run/hycan_daemon'', Unlink ''/run/hycan_daemon'', SocketUnix]) []"
proof -
  have "fst (run_state (initialize sample_os (mk_unix_socket ''daemon'' SERVER)) [])
    = (True, (mk_unix_socket ''daemon'' SERVER)\<lparr>socket_fd := 10, connected := True\<rparr>)"
    by (simp add: initialize_def mk_unix_socket_def setup_address_def sun_path_size_def
        sample_os_def Let_def)
  then show ?thesis
    using server_initialize_sequence [of sample_os "''daemon''" "[]"]
    by (simp add: wp_fst_snd Let_def cstr_chars_def)
qed

text \<open>A path that does not fit into the 108 bytes of an address with its terminator makes
  \<open>initialize\<close> fail without binding, listening or connecting, in either mode; every shorter path
  is passed on complete.\<close>

theorem address_length_bound:
  "setup_address (mk_unix_socket name m) =
     (if length name < 97 then Some (cstr_chars (''/run/hycan_'' @ name)) else None)
   \<and> wp (initialize K (mk_unix_socket (replicate 97 (CHR ''x'') @ name) m))
     (\<lambda>(ok, s) h'. \<not> ok \<and> socket_fd s = -1 \<and> \<not> connected s
        \<and> set (map fst h') \<subseteq> set (map fst h) \<union> {Posix SocketUnix}
            \<union> range (\<lambda>fd. Posix (Close fd)) \<union> range (\<lambda>p. Posix (Unlink p))) h"
proof
  show "setup_address (mk_unix_socket name m) =
      (if length name < 97 then Some (cstr_chars (''/run/hycan_'' @ name)) else None)"
    by (simp add: setup_address_def mk_unix_socket_def sun_path_size_def)
  show "wp (initialize K (mk_unix_socket (replicate 97 (CHR ''x'') @ name) m))
     (\<lambda>(ok, s) h'. \<not> ok \<and> socket_fd s = -1 \<and> \<not> connected s
        \<and> set (map fst h') \<subseteq> set (map fst h) \<union> {Posix SocketUnix}
            \<union> range (\<lambda>fd. Posix (Close fd)) \<union> range (\<lambda>p. Posix (Unlink p))) h"
    unfolding initialize_def setup_address_def mk_unix_socket_def unix_close_def
    by (auto simp: wp_rules Let_def sun_path_size_def intro!: wp_call_os_any; force)
qed

text \<open>\<open>accept\<close> gives back a connected client-mode object that owns one new descriptor, or
  nothing; destroying that object closes the descriptor and does not touch the file system, so
  the path of the listening socket stays.\<close>

theorem accepted_socket_lifetime:
  "wp (unix_accept K s t)
     (\<lambda>r h'. case r of
         None \<Rightarrow> fd_count h' = fd_count h
       | Some c \<Rightarrow> mode c = CLIENT \<and> connected c \<and> socket_fd c \<noteq> -1
           \<and> fd_count h' = (\<lambda>x. fd_count h x + owned (socket_fd c) x)
           \<and> wp (unix_destroy K c) (\<lambda>_ h''. fd_count h'' = fd_count h
               \<and> map fst h'' = Posix (Close (socket_fd c)) # map fst h') h') h"
proof (rule wp_conseq [OF wp_unix_accept])
  fix r h'
  assume *: "fd_count h' = (\<lambda>x. fd_count h x + (case r of None \<Rightarrow> 0 | Some c \<Rightarrow> owned (socket_fd c) x))
    \<and> (\<forall>c. r = Some c \<longrightarrow> c = mk_accepted_socket (socket_fd c) (socket_path s)
          \<and> socket_fd c \<noteq> -1 \<and> mode s = SERVER \<and> connected s)"
  show "case r of
         None \<Rightarrow> fd_count h' = fd_count h
       | Some c \<Rightarrow> mode c = CLIENT \<and> connected c \<and> socket_fd c \<noteq> -1
           \<and> fd_count h' = (\<lambda>x. fd_count h x + owned (socket_fd c) x)
           \<and> wp (unix_destroy K c) (\<lambda>_ h''. fd_count h'' = fd_count h
               \<and> map fst h'' = Posix (Close (socket_fd c)) # map fst h') h'"
  proof (cases r)
    case None
    with * show ?thesis by simp
  next
    case (Some c)
    with * obtain fd where c: "c = mk_accepted_socket fd (socket_path s)" and fd: "fd \<noteq> -1"
      by (metis mk_accepted_socket_simps(1))
    have "wp (unix_destroy K c) (\<lambda>_ h''. fd_count h'' = fd_count h
        \<and> map fst h'' = Posix (Close (socket_fd c)) # map fst h') h'"
      using * Some c fd
      by (auto simp: unix_destroy_def unix_close_def wp_rules fun_eq_iff owned_def
          intro!: wp_call_os)
    with * Some c fd show ?thesis by simp
  qed
qed

text \<open>Moving neither duplicates nor loses a descriptor: after a move construction or a move
  assignment, destroying both objects closes what the two owned before, each descriptor once.\<close>

theorem moves_conserve_descriptors:
  "wp (do { _ \<leftarrow> unix_destroy K (fst (unix_move residue other));
            unix_destroy K (snd (unix_move residue other)) })
     (\<lambda>_ h'. fd_count h' = (\<lambda>x. fd_count h x - owned (socket_fd other) x)) h
   \<and> wp (do { (a, b) \<leftarrow> unix_move_assign K residue this other;
             _ \<leftarrow> unix_destroy K a; unix_destroy K b })
     (\<lambda>_ h'. fd_count h' = (\<lambda>x. fd_count h x - owned (socket_fd this) x
        - owned (socket_fd other) x)) h"
  unfolding unix_move_def unix_move_assign_def wp_rules
  by (auto simp: wp_bind wp_return
      intro!: wp_conseq [OF wp_unix_destroy] wp_conseq [OF wp_unix_close])

text \<open>The timeout of \<open>accept\<close> and \<open>recv\<close> reaches \<open>select\<close> unchanged and in the range the
  call demands: seconds and microseconds add up to the milliseconds asked for, and the
  microseconds stay below one second. Without a positive timeout \<open>select\<close> is not called.\<close>

theorem timeout_conversion:
  "wp (wait_readable K fd t)
     (\<lambda>r h'. if 0 < t
        then (\<exists>sec usec rep. h' = (Posix (Select fd sec usec), rep) # h \<and> r = Some (rv rep)
               \<and> 0 \<le> sec \<and> 0 \<le> usec \<and> usec < 1000000 \<and> sec * 1000000 + usec = t * 1000)
        else r = None \<and> h' = h) h"
proof -
  have "t div 1000 * 1000000 + t mod 1000 * 1000 = t * 1000"
    using div_mult_mod_eq [of t 1000] by linarith
  moreover have "t mod 1000 * 1000 < 1000000" "0 \<le> t mod 1000 * 1000"
    using pos_mod_bound [of 1000 t] pos_mod_sign [of 1000 t] by linarith+
  ultimately show ?thesis
    by (auto simp: wait_readable_def wp_rules pos_imp_zdiv_nonneg_iff intro!: wp_call_os)
qed

text \<open>A result of 0 from \<open>recv\<close> does not tell a timeout from a closed connection: both
  occur, with the same object and the same arguments. The header documents 0 as a timeout.\<close>

theorem recv_zero_ambiguous:
  "\<exists>K1 K2. fst (run_state (unix_recv K1 (mk_accepted_socket 4 p) n 1000) h) = (0, [])
     \<and> fst (run_state (unix_recv K2 (mk_accepted_socket 4 p) n 1000) h) = (0, [])
     \<and> (\<exists>r. snd (run_state (unix_recv K1 (mk_accepted_socket 4 p) n 1000) h)
           = (Posix (Select 4 1 0), r) # h \<and> rv r = 0)
     \<and> (\<exists>r r'. snd (run_state (unix_recv K2 (mk_accepted_socket 4 p) n 1000) h)
           = (Posix (Recv 4 n), r') # (Posix (Select 4 1 0), r) # h \<and> rv r = 1 \<and> rv r' = 0)"
proof -
  let ?K1 = "sample_os\<lparr>respond := (\<lambda>h c. plain_reply 0)\<rparr>"
  have "fst (run_state (unix_recv ?K1 (mk_accepted_socket 4 p) n 1000) h) = (0, [])
     \<and> fst (run_state (unix_recv sample_os (mk_accepted_socket 4 p) n 1000) h) = (0, [])
     \<and> (\<exists>r. snd (run_state (unix_recv ?K1 (mk_accepted_socket 4 p) n 1000) h)
           = (Posix (Select 4 1 0), r) # h \<and> rv r = 0)
     \<and> (\<exists>r r'. snd (run_state (unix_recv sample_os (mk_accepted_socket 4 p) n 1000) h)
           = (Posix (Recv 4 n), r') # (Posix (Select 4 1 0), r) # h \<and> rv r = 1 \<and> rv r' = 0)"
    by (simp add: unix_recv_def wait_readable_def sample_os_def)
  then show ?thesis by blast
qed

end
