(* ===== verification/Vcan.thy ===== *)
theory Vcan
  imports HyCAN_OS Error_Types
begin

section \<open>Creating virtual CAN interfaces\<close>

text \<open>
  \<open>Daemon/VCAN.cpp\<close>: one function, run by the daemon, that creates a \<open>vcan\<close> interface over a
  netlink socket of its own unless an interface of that name is there already.
\<close>

definition create_vcan_interface_if_not_exists ::
  "os \<Rightarrow> string \<Rightarrow> (Error, unit) expected io" where
  "create_vcan_interface_if_not_exists K name = do {
     i \<leftarrow> nl K (IfNametoindex (cstr_chars name));
     if rv i \<noteq> 0 then State_Monad.return (Inr ())
     else if eno i \<noteq> ENODEV then
       State_Monad.return (Inl (mk_error VCANCheckingError
         (''Error checking interface '' @ quote @ name @ quote @ '' before creation: ''
            @ strerror K (eno i))))
     else do {
       s \<leftarrow> nl K NlSocketAlloc;
       let sock = rv s;
       if sock = 0 then
         State_Monad.return (Inl (mk_error NlSocketAllocError
           ''Error: Cannot alloc nl_socket.''))
       else do {
         c \<leftarrow> nl K (NlConnect sock);
         if rv c < 0 then do {
           _ \<leftarrow> nl K (NlSocketFree sock);
           State_Monad.return (Inl (mk_error NlConnectError
             ''Error: Cannot connect to nl_socket.''))
         } else do {
           l \<leftarrow> nl K LinkAlloc;
           let link = rv l;
           if link = 0 then do {
             _ \<leftarrow> nl K (NlClose sock);
             _ \<leftarrow> nl K (NlSocketFree sock);
             State_Monad.return (Inl (mk_error RtnlLinkAllocError
               ''Error: Cannot alloc rtnl_link.''))
           } else do {
             _ \<leftarrow> nl K (LinkSetName link (cstr_chars name));
             _ \<leftarrow> nl K (LinkSetType link ''vcan'');
             a \<leftarrow> nl K (LinkAddCreate sock link);
             _ \<leftarrow> nl K (LinkPut link);
             _ \<leftarrow> nl K (NlClose sock);
             _ \<leftarrow> nl K (NlSocketFree sock);
             if rv a < 0 then
               State_Monad.return (Inl (mk_error VCANCreationError
                 (''Failed to create VCAN interface '' @ quote @ name @ quote @ '': ''
                    @ strerror K (- rv a))))
             else State_Monad.return (Inr ())
           }
         }
       }
     }
   }"

subsection \<open>What it adds, and what it gives back\<close>

text \<open>
  The interfaces a history has created: the name and type last set on the link object when a
  \<open>rtnl_link_add\<close> for it succeeded.
\<close>

fun link_attrs :: "history \<Rightarrow> int \<Rightarrow> string \<times> string" where
  "link_attrs [] l = ([], [])"
| "link_attrs ((Nl (LinkSetName l' n), r) # h) l =
     (if l = l' then (n, snd (link_attrs h l)) else link_attrs h l)"
| "link_attrs ((Nl (LinkSetType l' t), r) # h) l =
     (if l = l' then (fst (link_attrs h l), t) else link_attrs h l)"
| "link_attrs ((Nl LinkAlloc, r) # h) l = (if l = rv r then ([], []) else link_attrs h l)"
| "link_attrs (e # h) l = link_attrs h l"

fun created :: "history \<Rightarrow> (string \<times> string) list" where
  "created [] = []"
| "created ((Nl (LinkAddCreate s l), r) # h) =
     (if rv r < 0 then created h else link_attrs h l # created h)"
| "created (e # h) = created h"

lemma vcan_keeps [keeps_rules]: "keeps fd_delta (create_vcan_interface_if_not_exists K n)"
  unfolding create_vcan_interface_if_not_exists_def by (intro keeps_rules) simp_all

lemma vcan_keeps_caches [keeps_rules]:
  "keeps nlcache_delta (create_vcan_interface_if_not_exists K n)"
  unfolding create_vcan_interface_if_not_exists_def by (intro keeps_rules) simp_all

lemma vcan_keeps_links [keeps_rules]:
  "keeps link_delta (create_vcan_interface_if_not_exists K n)"
  unfolding unchanged_def create_vcan_interface_if_not_exists_def
  by (auto simp: wp_rules Let_def fun_eq_iff intro!: wp_call_os_any)

lemma vcan_keeps_socks [keeps_rules]:
  "keeps nlsock_delta (create_vcan_interface_if_not_exists K n)"
  unfolding unchanged_def create_vcan_interface_if_not_exists_def
  by (auto simp: wp_rules Let_def fun_eq_iff intro!: wp_call_os_any)

subsection \<open>Property\<close>

text \<open>C39: Creating a virtual interface adds exactly one interface, of the requested name and of
  type \<open>vcan\<close>, when the first lookup found none and the call succeeds, and none on any other
  path; and when the lookup finds one, success is reported after that one call.\<close>

theorem create_vcan_at_most_once:
  "wp (create_vcan_interface_if_not_exists K n)
     (\<lambda>r h'. if rv (respond K h (Nl (IfNametoindex (cstr_chars n)))) \<noteq> 0
        then r = Inr () \<and> length h' = Suc (length h) \<and> created h' = created h
        else created h' = (if r = Inr () then (cstr_chars n, ''vcan'') # created h else created h)) h"
  unfolding create_vcan_interface_if_not_exists_def
  by (auto simp: wp_rules Let_def intro!: wp_call_os)

end
