(* ===== verification/Netlink_Manager.thy ===== *)
theory Netlink_Manager
  imports Messages Vcan
begin

section \<open>The daemon's netlink operations\<close>

text \<open>
  \<open>Daemon/NetlinkManager.hpp\<close> and \<open>.cpp\<close>: the object that owns the daemon's netlink socket and
  link cache and carries out the requests of clients. Every public operation holds the
  object's recursive mutex from its first line to its last, so an operation is one step of the
  daemon. \<open>nl_cache_refill\<close> and the like take the object's two pointers, which no operation
  but \<open>nm_initialize\<close> and \<open>nm_cleanup\<close> changes.
\<close>

subsection \<open>Life cycle\<close>

record netlink_manager =
  nl_socket :: int
  link_cache :: int

definition mk_netlink_manager :: netlink_manager where
  "mk_netlink_manager = \<lparr>nl_socket = 0, link_cache = 0\<rparr>"

definition nm_initialize :: "os \<Rightarrow> netlink_manager \<Rightarrow> (int \<times> netlink_manager) io" where
  "nm_initialize K nm = do {
     s \<leftarrow> nl K NlSocketAlloc;
     let nm = nm\<lparr>nl_socket := rv s\<rparr>;
     if nl_socket nm = 0 then State_Monad.return (-1, nm)
     else do {
       c \<leftarrow> nl K (NlConnect (nl_socket nm));
       if rv c < 0 then do {
         _ \<leftarrow> nl K (NlSocketFree (nl_socket nm));
         State_Monad.return (-1, nm\<lparr>nl_socket := 0\<rparr>)
       } else do {
         a \<leftarrow> nl K (LinkAllocCache (nl_socket nm));
         if rv a < 0 then do {
           _ \<leftarrow> nl K (NlSocketFree (nl_socket nm));
           State_Monad.return (-1, nm\<lparr>nl_socket := 0\<rparr>)
         } else State_Monad.return (0, nm\<lparr>link_cache := outv a\<rparr>)
       }
     }
   }"

definition nm_cleanup :: "os \<Rightarrow> netlink_manager \<Rightarrow> netlink_manager io" where
  "nm_cleanup K nm = do {
     nm \<leftarrow> (if link_cache nm \<noteq> 0 then do {
               _ \<leftarrow> nl K (NlCacheFree (link_cache nm));
               State_Monad.return (nm\<lparr>link_cache := 0\<rparr>)
             } else State_Monad.return nm);
     (if nl_socket nm \<noteq> 0 then do {
        _ \<leftarrow> nl K (NlSocketFree (nl_socket nm));
        State_Monad.return (nm\<lparr>nl_socket := 0\<rparr>)
      } else State_Monad.return nm)
   }"

subsection \<open>Queries\<close>

definition check_interface_exists :: "os \<Rightarrow> netlink_manager \<Rightarrow> string \<Rightarrow> NetlinkResponse io" where
  "check_interface_exists K nm name = do {
     f \<leftarrow> nl K (NlCacheRefill (nl_socket nm) (link_cache nm));
     if rv f < 0 then State_Monad.return (mk_query_response (-1) False False)
     else do {
       l \<leftarrow> nl K (LinkGetByName (link_cache nm) name);
       let ex = (rv l \<noteq> 0);
       (if ex then do { _ \<leftarrow> nl K (LinkPut (rv l)); State_Monad.return () }
        else State_Monad.return ());
       State_Monad.return (mk_query_response 0 ex False)
     }
   }"

definition flag_up :: "int \<Rightarrow> bool" where
  "flag_up flags = (flags AND IFF_UP \<noteq> 0)"

definition check_interface_is_up :: "os \<Rightarrow> netlink_manager \<Rightarrow> string \<Rightarrow> NetlinkResponse io" where
  "check_interface_is_up K nm name = do {
     f \<leftarrow> nl K (NlCacheRefill (nl_socket nm) (link_cache nm));
     if rv f < 0 then State_Monad.return (mk_query_response (-1) False False)
     else do {
       l \<leftarrow> nl K (LinkGetByName (link_cache nm) name);
       let ex = (rv l \<noteq> 0);
       up \<leftarrow> (if ex then do {
                 g \<leftarrow> nl K (LinkGetFlags (rv l));
                 _ \<leftarrow> nl K (LinkPut (rv l));
                 State_Monad.return (flag_up (rv g))
               } else State_Monad.return False);
       State_Monad.return (mk_query_response 0 ex up)
     }
   }"

subsection \<open>Changes\<close>

definition set_interface_state_libnl ::
  "os \<Rightarrow> netlink_manager \<Rightarrow> string \<Rightarrow> bool \<Rightarrow> NetlinkResponse io" where
  "set_interface_state_libnl K nm name up = do {
     f \<leftarrow> nl K (NlCacheRefill (nl_socket nm) (link_cache nm));
     if rv f < 0 then State_Monad.return (mk_response (-1) ''Failed to refresh link cache'')
     else do {
       l \<leftarrow> nl K (LinkGetByName (link_cache nm) name);
       let link = rv l;
       if link = 0 then
         State_Monad.return (mk_response (-1) (''Interface '' @ name @ '' not found''))
       else do {
         g \<leftarrow> nl K (LinkGetFlags link);
         if flag_up (rv g) = up then do {
           _ \<leftarrow> nl K (LinkPut link);
           State_Monad.return (mk_response 0
             (''Interface '' @ name @ '' is already '' @ (if up then ''up'' else ''down'')))
         } else do {
           c \<leftarrow> nl K LinkAlloc;
           let change = rv c;
           if change = 0 then do {
             _ \<leftarrow> nl K (LinkPut link);
             State_Monad.return (mk_response (-1) ''Failed to allocate change link object'')
           } else do {
             _ \<leftarrow> (if up then nl K (LinkSetUp change) else nl K (LinkUnsetUp change));
             ch \<leftarrow> nl K (LinkChange (nl_socket nm) link change);
             _ \<leftarrow> nl K (LinkPut change);
             _ \<leftarrow> nl K (LinkPut link);
             if rv ch < 0 then
               State_Monad.return (mk_response (word_of_int (rv ch))
                 (''rtnl_link_change failed: '' @ nl_geterror K (rv ch)))
             else do {
               _ \<leftarrow> nl K (NlCacheRefill (nl_socket nm) (link_cache nm));
               State_Monad.return (mk_response 0 ''Success'')
             }
           }
         }
       }
     }
   }"

definition set_can_bitrate_libnl ::
  "os \<Rightarrow> netlink_manager \<Rightarrow> string \<Rightarrow> 32 word \<Rightarrow> NetlinkResponse io" where
  "set_can_bitrate_libnl K nm name rate =
     (if \<not> prefix ''can'' name then
        State_Monad.return
          (mk_response 0 ''Not a CAN interface, skipping bitrate setting'')
      else do {
        l \<leftarrow> nl K (LinkGetByName (link_cache nm) name);
        let link = rv l;
        if link = 0 then
          State_Monad.return (mk_response (-1) (''CAN Interface '' @ name @ '' not found''))
        else do {
          c \<leftarrow> nl K LinkAlloc;
          let change = rv c;
          if change = 0 then do {
            _ \<leftarrow> nl K (LinkPut link);
            State_Monad.return
              (mk_response (-1) ''Failed to allocate change link object for CAN'')
          } else do {
            i \<leftarrow> nl K (LinkIsCan link);
            if rv i \<noteq> 0 then do {
              t \<leftarrow> nl K (LinkSetType change ''can'');
              if rv t < 0 then do {
                _ \<leftarrow> nl K (LinkPut change);
                _ \<leftarrow> nl K (LinkPut link);
                State_Monad.return (mk_response (-1)
                  (''Failed to set link type to '' @ quote @ ''can'' @ quote))
              } else do {
                _ \<leftarrow> nl K (LinkCanSetBitrate change rate);
                ch \<leftarrow> nl K (LinkChange (nl_socket nm) link change);
                _ \<leftarrow> nl K (LinkPut change);
                _ \<leftarrow> nl K (LinkPut link);
                if rv ch < 0 then
                  State_Monad.return (mk_response (word_of_int (rv ch))
                    (''Failed to set CAN bitrate: '' @ nl_geterror K (rv ch)))
                else State_Monad.return (mk_response 0 ''CAN bitrate set successfully'')
              }
            } else do {
              _ \<leftarrow> nl K (LinkPut change);
              _ \<leftarrow> nl K (LinkPut link);
              State_Monad.return (mk_response (-1) ''Interface is not a CAN interface'')
            }
          }
        }
      })"

subsection \<open>Requests\<close>

text \<open>
  The name of a request is a \<open>char\<close> array that came off a socket; converting it to a
  \<open>string_view\<close> reads up to its terminator. \<open>None\<close> is the array without one: the read runs past
  the structure and the behaviour is undefined.
\<close>

definition with_name ::
  "NetlinkRequest \<Rightarrow> (string \<Rightarrow> NetlinkResponse io) \<Rightarrow> NetlinkResponse option io" where
  "with_name req f = (case c_str (interface_name req) of
     None \<Rightarrow> State_Monad.return None
   | Some name \<Rightarrow> do { r \<leftarrow> f name; State_Monad.return (Some r) })"

definition set_state_request ::
  "os \<Rightarrow> netlink_manager \<Rightarrow> NetlinkRequest \<Rightarrow> string \<Rightarrow> NetlinkResponse io" where
  "set_state_request K nm req name =
     (if req_up req \<and> set_bitrate req then do {
        is_up_response \<leftarrow> check_interface_is_up K nm name;
        if result is_up_response \<noteq> 0 then State_Monad.return is_up_response
        else do {
          down_result \<leftarrow> (if is_up is_up_response
            then do { d \<leftarrow> set_interface_state_libnl K nm name False; State_Monad.return (Some d) }
            else State_Monad.return None);
          if (case down_result of None \<Rightarrow> False | Some d \<Rightarrow> result d \<noteq> 0) then
            State_Monad.return (case down_result of
                Some d \<Rightarrow> mk_response (result d)
                  (''Failed to bring down interface '' @ name @ '' before setting bitrate: ''
                     @ cstr_chars (error_message d))
              | None \<Rightarrow> mk_response 0 [])
          else do {
            bitrate_result \<leftarrow> set_can_bitrate_libnl K nm name (bitrate req);
            if result bitrate_result \<noteq> 0 then State_Monad.return bitrate_result
            else set_interface_state_libnl K nm name (req_up req)
          }
        }
      } else set_interface_state_libnl K nm name (req_up req))"

definition create_vcan_request ::
  "os \<Rightarrow> string \<Rightarrow> NetlinkResponse io" where
  "create_vcan_request K name = do {
     vcan_result \<leftarrow> create_vcan_interface_if_not_exists K name;
     State_Monad.return (case vcan_result of
         Inl e \<Rightarrow> mk_response (-1)
           (''Failed to create VCAN interface '' @ name @ '': '' @ message e)
       | Inr _ \<Rightarrow> mk_response 0 ''VCAN interface created successfully'')
   }"

definition process_request ::
  "os \<Rightarrow> netlink_manager \<Rightarrow> NetlinkRequest \<Rightarrow> NetlinkResponse option io" where
  "process_request K nm req = (case type_of_code (operation req) of
     Some INTERFACE_EXISTS \<Rightarrow> with_name req (check_interface_exists K nm)
   | Some INTERFACE_IS_UP \<Rightarrow> with_name req (check_interface_is_up K nm)
   | Some CREATE_VCAN_INTERFACE \<Rightarrow> with_name req (create_vcan_request K)
   | Some SET_INTERFACE_STATE \<Rightarrow> with_name req (set_state_request K nm req)
   | _ \<Rightarrow> State_Monad.return (Some (mk_response (-1) ''Unknown request operation'')))"

subsection \<open>Handles are given back\<close>

lemmas netlink_op_defs = check_interface_exists_def check_interface_is_up_def
  set_interface_state_libnl_def set_can_bitrate_libnl_def

lemma netlink_ops_keep_fds [keeps_rules]:
  "keeps fd_delta (check_interface_exists K nm n)"
  "keeps fd_delta (check_interface_is_up K nm n)"
  "keeps fd_delta (set_interface_state_libnl K nm n up)"
  "keeps fd_delta (set_can_bitrate_libnl K nm n rate)"
  unfolding netlink_op_defs by (intro keeps_rules; simp)+

lemma netlink_ops_keep_socks [keeps_rules]:
  "keeps nlsock_delta (check_interface_exists K nm n)"
  "keeps nlsock_delta (check_interface_is_up K nm n)"
  "keeps nlsock_delta (set_interface_state_libnl K nm n up)"
  "keeps nlsock_delta (set_can_bitrate_libnl K nm n rate)"
  unfolding netlink_op_defs by (intro keeps_rules; simp)+

lemma netlink_ops_keep_caches [keeps_rules]:
  "keeps nlcache_delta (check_interface_exists K nm n)"
  "keeps nlcache_delta (check_interface_is_up K nm n)"
  "keeps nlcache_delta (set_interface_state_libnl K nm n up)"
  "keeps nlcache_delta (set_can_bitrate_libnl K nm n rate)"
  unfolding netlink_op_defs by (intro keeps_rules; simp)+

lemma netlink_ops_keep_links [keeps_rules]:
  "keeps link_delta (check_interface_exists K nm n)"
  "keeps link_delta (check_interface_is_up K nm n)"
  "keeps link_delta (set_interface_state_libnl K nm n up)"
  "keeps link_delta (set_can_bitrate_libnl K nm n rate)"
  unfolding unchanged_def netlink_op_defs
  by (auto simp: wp_rules Let_def fun_eq_iff intro!: wp_call_os_any)

text \<open>So every request leaves every view of the history that the four operations and the creation leave.\<close>

lemma process_request_keeps:
  assumes "\<And>n. unchanged f (check_interface_exists K nm n)"
    and "\<And>n. unchanged f (check_interface_is_up K nm n)"
    and "\<And>n up. unchanged f (set_interface_state_libnl K nm n up)"
    and "\<And>n rate. unchanged f (set_can_bitrate_libnl K nm n rate)"
    and "\<And>n. unchanged f (create_vcan_interface_if_not_exists K n)"
  shows "unchanged f (process_request K nm req)"
proof -
  have named: "unchanged f (with_name req g)" if "\<And>n. unchanged f (g n)" for g
    unfolding with_name_def by (intro keeps_rules that)
  have set: "unchanged f (set_state_request K nm req n)" for n
    unfolding set_state_request_def by (intro keeps_rules assms)
  have vcan: "unchanged f (create_vcan_request K n)" for n
    unfolding create_vcan_request_def by (intro keeps_rules assms)
  show ?thesis
    unfolding process_request_def
    by (auto split: option.split RequestType.split intro!: keeps_return named set vcan assms)
qed

lemma process_request_keeps_fds [keeps_rules]: "keeps fd_delta (process_request K nm req)"
  by (intro process_request_keeps keeps_rules)

subsection \<open>The changes a history has applied\<close>

text \<open>
  The abstract view of what the daemon does to an interface. A change object collects what is
  set on it; \<open>rtnl_link_change\<close> applies the collection to the link it is given, if it succeeds.
  \<open>applied h\<close> lists, newest first, the interfaces changed in \<open>h\<close> and what was set on them.
\<close>

datatype attr = AUp | ADown | AType string | ABitrate "32 word"

fun pending :: "history \<Rightarrow> int \<Rightarrow> attr list" where
  "pending [] p = []"
| "pending ((c, r) # h) p = (case c of
     Nl (LinkSetUp q) \<Rightarrow> (if q = p then pending h p @ [AUp] else pending h p)
   | Nl (LinkUnsetUp q) \<Rightarrow> (if q = p then pending h p @ [ADown] else pending h p)
   | Nl (LinkSetType q t) \<Rightarrow> (if q = p then pending h p @ [AType t] else pending h p)
   | Nl (LinkCanSetBitrate q b) \<Rightarrow> (if q = p then pending h p @ [ABitrate b] else pending h p)
   | Nl LinkAlloc \<Rightarrow> (if rv r = p then [] else pending h p)
   | _ \<Rightarrow> pending h p)"

fun link_name :: "history \<Rightarrow> int \<Rightarrow> string" where
  "link_name [] l = []"
| "link_name ((c, r) # h) l = (case c of
     Nl (LinkGetByName _ n) \<Rightarrow> (if rv r = l then n else link_name h l)
   | _ \<Rightarrow> link_name h l)"

fun applied :: "history \<Rightarrow> (string \<times> attr list) list" where
  "applied [] = []"
| "applied ((c, r) # h) = (case c of
     Nl (LinkChange s l p) \<Rightarrow>
       (if rv r < 0 then applied h else (link_name h l, pending h p) # applied h)
   | _ \<Rightarrow> applied h)"

text \<open>
  What the daemon knows of an interface: whether it was up when its flags were last read, or
  after the last change that was applied to it.
\<close>

fun known_up :: "history \<Rightarrow> string \<Rightarrow> bool option" where
  "known_up [] n = None"
| "known_up ((c, r) # h) n = (case c of
     Nl (LinkGetFlags l) \<Rightarrow>
       (if link_name h l = n then Some (flag_up (rv r)) else known_up h n)
   | Nl (LinkChange s l p) \<Rightarrow>
       (if rv r < 0 \<or> link_name h l \<noteq> n then known_up h n
        else if AUp \<in> set (pending h p) then Some True
        else if ADown \<in> set (pending h p) then Some False
        else known_up h n)
   | _ \<Rightarrow> known_up h n)"

text \<open>No bitrate was ever applied to an interface that was not known to be down.\<close>

fun bitrate_safe :: "history \<Rightarrow> bool" where
  "bitrate_safe [] = True"
| "bitrate_safe ((c, r) # h) = ((case c of
     Nl (LinkChange s l p) \<Rightarrow>
       (if 0 \<le> rv r \<and> (\<exists>b. ABitrate b \<in> set (pending h p))
        then known_up h (link_name h l) = Some False else True)
   | _ \<Rightarrow> True) \<and> bitrate_safe h)"

text \<open>
  Whether the link cache holds a name, as far as lookups since its last refill have shown. The
  assumption \<open>cache_coherent\<close> on libnl: a lookup in a cache that nothing refilled in between
  gives the answer it gave before.
\<close>

fun cached :: "history \<Rightarrow> string \<Rightarrow> bool option" where
  "cached [] n = None"
| "cached ((c, r) # h) n = (case c of
     Nl (NlCacheRefill _ _) \<Rightarrow> None
   | Nl (LinkGetByName _ n') \<Rightarrow> (if n' = n then Some (rv r \<noteq> 0) else cached h n)
   | _ \<Rightarrow> cached h n)"

definition cache_coherent :: "os \<Rightarrow> bool" where
  "cache_coherent K \<longleftrightarrow> (\<forall>h p n b. cached h n = Some b \<longrightarrow>
     (rv (respond K h (Nl (LinkGetByName p n))) \<noteq> 0) = b)"

text \<open>
  \<open>rtnl_link_change\<close> is declared to return an \<open>int\<close>; the response stores it in an \<open>int\<close>.
\<close>

definition int_replies :: "os \<Rightarrow> bool" where
  "int_replies K \<longleftrightarrow> (\<forall>h c. - (2 ^ 31) \<le> rv (respond K h (Nl c)))"

lemma word_of_negative_int:
  assumes "- (2 ^ 31) \<le> i" and "i < 0"
  shows "(word_of_int i :: 32 word) \<noteq> 0"
proof
  assume "(word_of_int i :: 32 word) = 0"
  then obtain k where k: "i = 4294967296 * k"
    by (auto simp: word_of_int_eq_0_iff)
  with assms show False by simp
qed

lemma int_repliesD:
  assumes "int_replies K" and "rv (respond K h (Nl c)) < 0"
  shows "(word_of_int (rv (respond K h (Nl c))) :: 32 word) \<noteq> 0"
  using assms by (intro word_of_negative_int) (auto simp: int_replies_def)

text \<open>
  What setting the state of an interface may apply to it (nothing, if it is in that state
  already), and what setting the bitrate applies.
\<close>

definition state_change :: "string \<Rightarrow> bool \<Rightarrow> (string \<times> attr list) list \<Rightarrow> bool" where
  "state_change n up cs \<longleftrightarrow> cs = [] \<or> cs = [(n, [if up then AUp else ADown])]"

definition bitrate_change :: "string \<Rightarrow> 32 word \<Rightarrow> (string \<times> attr list) list" where
  "bitrate_change n rate =
     (if prefix ''can'' n then [(n, [AType ''can'', ABitrate rate])] else [])"

lemma ex_state_change:
  "(\<exists>cs. state_change n up cs \<and> xs = cs @ ys)
     \<longleftrightarrow> xs = ys \<or> xs = (n, [if up then AUp else ADown]) # ys"
  unfolding state_change_def conj_disj_distribR ex_disj_distrib by simp

lemma check_interface_is_up_spec:
  "wp (check_interface_is_up K nm n)
     (\<lambda>r h'. applied h' = applied h \<and> (bitrate_safe h' \<longleftrightarrow> bitrate_safe h)
        \<and> result r \<in> {0, -1}
        \<and> (result r = 0 \<longrightarrow> (if exists r then known_up h' n = Some (is_up r)
                               else \<not> is_up r \<and> cached h' n = Some False))) h"
  unfolding check_interface_is_up_def
  by (auto simp: wp_rules Let_def intro!: wp_call_os_any)

lemma set_interface_state_spec:
  assumes "int_replies K"
  shows "wp (set_interface_state_libnl K nm n up)
     (\<lambda>r h'. (bitrate_safe h' \<longleftrightarrow> bitrate_safe h)
        \<and> (result r = 0 \<longrightarrow> known_up h' n = Some up
              \<and> (\<exists>cs. state_change n up cs \<and> applied h' = cs @ applied h))
        \<and> (result r \<noteq> 0 \<longrightarrow> applied h' = applied h)) h"
  unfolding set_interface_state_libnl_def ex_state_change
  by (auto simp: wp_rules Let_def int_repliesD [OF assms] intro!: wp_call_os)

lemma set_can_bitrate_spec:
  assumes "int_replies K"
  shows "wp (set_can_bitrate_libnl K nm n rate)
     (\<lambda>r h'. (result r = 0 \<longrightarrow> applied h' = bitrate_change n rate @ applied h)
        \<and> (result r \<noteq> 0 \<longrightarrow> applied h' = applied h)) h"
  unfolding set_can_bitrate_libnl_def bitrate_change_def
  by (auto simp: wp_rules Let_def int_repliesD [OF assms] intro!: wp_call_os)

lemma set_can_bitrate_safe:
  assumes "cache_coherent K" and "bitrate_safe h"
    and "known_up h n = Some False \<or> cached h n = Some False"
  shows "wp (set_can_bitrate_libnl K nm n rate) (\<lambda>r h'. bitrate_safe h') h"
  using assms(2,3) assms(1) [unfolded cache_coherent_def, rule_format, of h n]
  unfolding set_can_bitrate_libnl_def
  by (auto simp: wp_rules Let_def intro!: wp_call_os)

lemma with_name_Some:
  "c_str (interface_name req) = Some n
     \<Longrightarrow> with_name req f = do { r \<leftarrow> f n; State_Monad.return (Some r) }"
  by (simp add: with_name_def)

text \<open>
  The three stages of a request that sets the bitrate: take the interface down if it is up, set
  the bitrate, bring it up.
\<close>

definition bring_down :: "os \<Rightarrow> netlink_manager \<Rightarrow> string \<Rightarrow> bool \<Rightarrow> NetlinkResponse option io" where
  "bring_down K nm n up =
     (if up then do { d \<leftarrow> set_interface_state_libnl K nm n False; State_Monad.return (Some d) }
      else State_Monad.return None)"

definition rate_then_state ::
  "os \<Rightarrow> netlink_manager \<Rightarrow> string \<Rightarrow> 32 word \<Rightarrow> bool \<Rightarrow> NetlinkResponse io" where
  "rate_then_state K nm n rate up = do {
     b \<leftarrow> set_can_bitrate_libnl K nm n rate;
     if result b \<noteq> 0 then State_Monad.return b else set_interface_state_libnl K nm n up
   }"

lemma bring_down_spec:
  assumes "int_replies K"
  shows "wp (bring_down K nm n up)
     (\<lambda>d h'. (bitrate_safe h' \<longleftrightarrow> bitrate_safe h) \<and> (case d of
         None \<Rightarrow> \<not> up \<and> h' = h
       | Some r \<Rightarrow> up \<and> (result r = 0 \<longrightarrow> known_up h' n = Some False
             \<and> (\<exists>cs. state_change n False cs \<and> applied h' = cs @ applied h)))) h"
  unfolding bring_down_def
  by (cases up) (auto simp: wp_rules intro!: wp_conseq [OF set_interface_state_spec [OF assms]])

lemma rate_then_state_spec:
  assumes "int_replies K"
  shows "wp (rate_then_state K nm n rate up)
     (\<lambda>r h'. result r = 0 \<longrightarrow> known_up h' n = Some up
        \<and> (\<exists>cs. state_change n up cs \<and> applied h' = cs @ bitrate_change n rate @ applied h)) h"
  unfolding rate_then_state_def wp_rules
  by (rule wp_conseq [OF set_can_bitrate_spec [OF assms]])
    (auto intro!: wp_conseq [OF set_interface_state_spec [OF assms]])

lemma rate_then_state_safe:
  assumes "int_replies K" and "cache_coherent K" and "bitrate_safe h"
    and "known_up h n = Some False \<or> cached h n = Some False"
  shows "wp (rate_then_state K nm n rate up) (\<lambda>r h'. bitrate_safe h') h"
  unfolding rate_then_state_def wp_rules
  by (rule wp_conseq [OF set_can_bitrate_safe [OF assms(2-4)]])
    (auto intro!: wp_conseq [OF set_interface_state_spec [OF assms(1)]])

lemma set_state_request_stages:
  "set_state_request K nm req n =
     (if req_up req \<and> set_bitrate req then do {
        i \<leftarrow> check_interface_is_up K nm n;
        if result i \<noteq> 0 then State_Monad.return i
        else do {
          d \<leftarrow> bring_down K nm n (is_up i);
          (case d of
             None \<Rightarrow> rate_then_state K nm n (bitrate req) (req_up req)
           | Some r \<Rightarrow> (if result r \<noteq> 0
               then State_Monad.return (mk_response (result r)
                 (''Failed to bring down interface '' @ n @ '' before setting bitrate: ''
                    @ cstr_chars (error_message r)))
               else rate_then_state K nm n (bitrate req) (req_up req)))
        }
      } else set_interface_state_libnl K nm n (req_up req))"
proof -
  have branch: "(if (case d of None \<Rightarrow> False | Some r \<Rightarrow> result r \<noteq> 0)
      then State_Monad.return (case d of Some r \<Rightarrow> f r | None \<Rightarrow> z) else m)
    = (case d of None \<Rightarrow> m | Some r \<Rightarrow> if result r \<noteq> 0 then State_Monad.return (f r) else m)"
    for d :: "NetlinkResponse option" and f and z and m :: "NetlinkResponse io"
    by (cases d) simp_all
  show ?thesis
    unfolding set_state_request_def bring_down_def rate_then_state_def branch by (rule refl)
qed

text \<open>
  What a request that brings an interface up at a bitrate may apply: at most one change down,
  then the bitrate, then at most one change up.
\<close>

definition updown_changes :: "string \<Rightarrow> 32 word \<Rightarrow> (string \<times> attr list) list \<Rightarrow> bool" where
  "updown_changes n rate cs \<longleftrightarrow> (\<exists>ups downs. state_change n True ups \<and> state_change n False downs
     \<and> cs = ups @ bitrate_change n rate @ downs)"

lemma updown_changesI:
  assumes "\<exists>downs. state_change n False downs \<and> a1 = downs @ a0"
    and "\<exists>ups. state_change n True ups \<and> a2 = ups @ bitrate_change n rate @ a1"
  shows "\<exists>cs. updown_changes n rate cs \<and> a2 = cs @ a0"
  using assms unfolding updown_changes_def by (metis append.assoc)

lemma bring_down_changes:
  assumes "int_replies K"
  shows "wp (bring_down K nm n up)
     (\<lambda>d h'. (case d of None \<Rightarrow> True | Some r \<Rightarrow> result r = 0) \<longrightarrow>
        (\<exists>cs. state_change n False cs \<and> applied h' = cs @ applied h)) h"
  by (rule wp_conseq [OF bring_down_spec [OF assms]])
    (auto simp: ex_state_change split: option.splits)

lemma rate_then_state_changes:
  assumes "int_replies K" and "\<exists>downs. state_change n False downs \<and> applied h = downs @ a0"
  shows "wp (rate_then_state K nm n rate True)
     (\<lambda>r h'. result r = 0 \<longrightarrow> (\<exists>cs. updown_changes n rate cs \<and> applied h' = cs @ a0)) h"
  by (rule wp_conseq [OF rate_then_state_spec [OF assms(1)]])
    (blast intro: updown_changesI [OF assms(2)])

lemma set_state_request_changes:
  assumes "int_replies K" and up: "req_up req" "set_bitrate req"
  shows "wp (set_state_request K nm req n)
     (\<lambda>r h'. result r = 0 \<longrightarrow> 
        (\<exists>cs. updown_changes n (bitrate req) cs \<and> applied h' = cs @ applied h)) h"
proof -
  have stage: "wp (case d of
       None \<Rightarrow> rate_then_state K nm n (bitrate req) True
     | Some r \<Rightarrow> (if result r \<noteq> 0 then State_Monad.return (mk_response (result r) (msg r))
         else rate_then_state K nm n (bitrate req) True))
     (\<lambda>r h'. result r = 0 \<longrightarrow> (\<exists>cs. updown_changes n (bitrate req) cs \<and> applied h' = cs @ a0)) t"
    if "(case d of None \<Rightarrow> True | Some r \<Rightarrow> result r = 0) \<longrightarrow>
        (\<exists>cs. state_change n False cs \<and> applied t = cs @ a0)" for d t msg a0
    using that by (cases d) (auto simp: wp_return intro!: rate_then_state_changes [OF assms(1)])
  show ?thesis
    unfolding set_state_request_stages wp_bind
    apply (simp only: up if_True simp_thms wp_bind)
    apply (rule wp_conseq [OF check_interface_is_up_spec])
    apply (simp only: wp_if wp_return split: if_split)
    apply (intro conjI impI)
    apply simp
    apply (simp only: wp_bind)
    apply (rule wp_conseq [OF bring_down_changes [OF assms(1)]])
    apply (rule stage)
    apply simp
    done
qed

lemma set_state_request_known:
  assumes "int_replies K"
  shows "wp (set_state_request K nm req n)
     (\<lambda>r h'. result r = 0 \<longrightarrow> known_up h' n = Some (req_up req)) h"
  unfolding set_state_request_stages wp_rules
  by (auto split: option.splits
      intro!: wp_conseq [OF check_interface_is_up_spec] wp_conseq [OF bring_down_spec [OF assms]]
        wp_conseq [OF set_interface_state_spec [OF assms]]
        wp_conseq [OF rate_then_state_spec [OF assms]])

lemma set_state_request_safe:
  assumes "int_replies K" and "cache_coherent K" and "bitrate_safe h"
  shows "wp (set_state_request K nm req n) (\<lambda>r h'. bitrate_safe h') h"
  unfolding set_state_request_stages wp_rules using assms(3)
  by (auto split: option.splits if_splits
      intro!: wp_conseq [OF check_interface_is_up_spec] wp_conseq [OF bring_down_spec [OF assms(1)]]
        wp_conseq [OF set_interface_state_spec [OF assms(1)]]
        rate_then_state_safe [OF assms(1,2)])

lemma process_set_state:
  "type_of_code (operation req) = Some SET_INTERFACE_STATE
     \<Longrightarrow> c_str (interface_name req) = Some n
     \<Longrightarrow> process_request K nm req
         = do { r \<leftarrow> set_state_request K nm req n; State_Monad.return (Some r) }"
  by (simp add: process_request_def with_name_Some)

subsection \<open>The interface the daemon uses\<close>

text \<open>
  What a worker relies on: processing a request, whatever it is, leaves descriptors, link
  references, netlink sockets and caches as it found them.
\<close>

definition resource_ledgers :: "delta set" where
  "resource_ledgers = {fd_delta, link_delta, nlsock_delta, nlcache_delta}"

locale request_processor =
  fixes process :: "'q \<Rightarrow> 'a io"
  assumes process_keeps: "d \<in> resource_ledgers \<Longrightarrow> keeps d (process q)"
begin

lemma process_then:
  "d \<in> resource_ledgers \<Longrightarrow> (\<And>r. keeps d (f r)) \<Longrightarrow> keeps d (process q \<bind> f)"
  by (intro keeps_rules process_keeps)

end

interpretation manager: request_processor "process_request K nm" for K nm
  by unfold_locales
    (auto simp: resource_ledgers_def intro!: process_request_keeps keeps_rules
      netlink_ops_keep_links vcan_keeps_links vcan_keeps_socks)

subsection \<open>Properties\<close>

text \<open>
  An environment of the sample kind whose link cache answers every lookup as it did before.
\<close>

definition coherent_os :: os where
  "coherent_os = sample_os\<lparr>respond := (\<lambda>h c. case c of
       Nl (LinkGetByName _ n) \<Rightarrow> plain_reply (if cached h n = Some False then 0 else 7)
     | _ \<Rightarrow> respond sample_os h c)\<rparr>"

lemma int_replies_coherent: "int_replies coherent_os"
  by (auto simp: int_replies_def coherent_os_def sample_os_def split: netlink_call.splits)

lemma cache_coherent_coherent: "cache_coherent coherent_os"
  by (auto simp: cache_coherent_def coherent_os_def)

text \<open>The reply of that environment to the request the witnesses use.\<close>

lemma coherent_can0_up:
  "fst (run_state (process_request coherent_os mk_netlink_manager
     (mk_set_request ''can0'' True True 500000)) []) = Some (mk_response 0 ''Success'')"
proof -
  have name: "c_str (interface_name (mk_set_request ''can0'' True True 500000)) = Some ''can0''"
    by (simp add: cstr_chars_def)
  show ?thesis
    by (simp add: process_set_state [OF _ name] set_state_request_def netlink_op_defs
        coherent_os_def sample_os_def flag_up_def)
qed

text \<open>C17: A request to set the state of an interface that the daemon answers with success has
  brought the interface to that state: its flags were last read so, or the last change applied
  to it made it so. This holds on every path, with or without a bitrate.\<close>

theorem set_request_reaches_state:
  assumes "int_replies K"
    and "type_of_code (operation req) = Some SET_INTERFACE_STATE"
    and "c_str (interface_name req) = Some n"
  shows "wp (process_request K nm req)
    (\<lambda>r h'. \<exists>resp. r = Some resp
       \<and> (result resp = 0 \<longrightarrow> known_up h' n = Some (req_up req))) h"
  unfolding process_set_state [OF assms(2,3)] wp_rules
  by (rule wp_conseq [OF set_state_request_known [OF assms(1)]]) simp

theorem set_request_reaches_state_witness:
  "\<exists>h'. run_state (process_request coherent_os mk_netlink_manager
        (mk_set_request ''can0'' True True 500000)) [] = (Some (mk_response 0 ''Success''), h')
     \<and> known_up h' ''can0'' = Some True"
  using set_request_reaches_state [OF int_replies_coherent,
      of "mk_set_request ''can0'' True True 500000" "''can0''" mk_netlink_manager "[]"]
    coherent_can0_up
  by (auto simp: wp_fst_snd cstr_chars_def intro!: prod_eqI)

text \<open>A successful request to bring an interface up at a bitrate applies its changes in the
  one order that is safe for a CAN controller: at most one change down, then the bitrate exactly
  once (for an interface whose name starts with \<open>can\<close>), then at most one change up, all to the
  named interface and nothing else.\<close>

theorem bitrate_request_order:
  assumes "int_replies K"
    and "type_of_code (operation req) = Some SET_INTERFACE_STATE"
    and "c_str (interface_name req) = Some n"
    and "req_up req" and "set_bitrate req"
  shows "wp (process_request K nm req)
    (\<lambda>r h'. \<exists>resp. r = Some resp \<and> (result resp = 0 \<longrightarrow>
       (\<exists>cs. updown_changes n (bitrate req) cs \<and> applied h' = cs @ applied h))) h"
  unfolding process_set_state [OF assms(2,3)] wp_rules
  by (rule wp_conseq [OF set_state_request_changes [OF assms(1,4,5)]]) simp

theorem bitrate_request_order_witness:
  "\<exists>h'. run_state (process_request coherent_os mk_netlink_manager
        (mk_set_request ''can0'' True True 500000)) [] = (Some (mk_response 0 ''Success''), h')
     \<and> updown_changes ''can0'' 500000 (applied h')"
  using bitrate_request_order [OF int_replies_coherent,
      of "mk_set_request ''can0'' True True 500000" "''can0''" mk_netlink_manager "[]"]
    coherent_can0_up
  by (auto simp: wp_fst_snd cstr_chars_def intro!: prod_eqI)

text \<open>C18: The daemon never applies a bitrate to an interface that is not known to be down: no
  request, whatever bytes it holds, makes a history that was safe unsafe.\<close>

theorem bitrate_only_when_down:
  assumes "int_replies K" and "cache_coherent K" and "bitrate_safe h"
  shows "wp (process_request K nm req) (\<lambda>r h'. bitrate_safe h') h"
proof -
  have same: "wp (with_name req f) (\<lambda>r h'. bitrate_safe h') h"
    if "\<And>n. wp (f n) (\<lambda>r h'. bitrate_safe h') h" for f
    using assms(3)
    by (auto simp: with_name_def wp_bind wp_return split: option.split
        intro!: wp_conseq [OF that])
  have ex: "wp (check_interface_exists K nm n) (\<lambda>r h'. bitrate_safe h') h" for n
    unfolding check_interface_exists_def using assms(3)
    by (auto simp: wp_rules Let_def intro!: wp_call_os_any)
  have up: "wp (check_interface_is_up K nm n) (\<lambda>r h'. bitrate_safe h') h" for n
    by (rule wp_conseq [OF check_interface_is_up_spec]) (simp add: assms(3))
  have vcan: "wp (create_vcan_request K n) (\<lambda>r h'. bitrate_safe h') h" for n
    unfolding create_vcan_request_def create_vcan_interface_if_not_exists_def using assms(3)
    by (auto simp: wp_rules Let_def intro!: wp_call_os_any)
  show ?thesis
    unfolding process_request_def
    by (auto simp: wp_return assms(3) split: option.split RequestType.split
        intro!: same ex up vcan set_state_request_safe [OF assms])
qed

theorem bitrate_only_when_down_witness:
  "wp (process_request coherent_os mk_netlink_manager (mk_set_request ''can0'' True True 500000))
     (\<lambda>r h'. bitrate_safe h') []"
  by (rule bitrate_only_when_down) (simp_all add: int_replies_coherent cache_coherent_coherent)

text \<open>Every request gives back what it takes from libnl, on every path, errors included: link
  references and change objects, netlink sockets and caches are counted as before, and no
  descriptor of the daemon is opened or closed.\<close>

theorem process_request_releases_handles:
  "wp (process_request K nm req) (\<lambda>_ h'. link_refs h' = link_refs h) h
   \<and> wp (process_request K nm req) (\<lambda>_ h'. nl_socks h' = nl_socks h) h
   \<and> wp (process_request K nm req) (\<lambda>_ h'. nl_caches h' = nl_caches h) h
   \<and> wp (process_request K nm req) (\<lambda>_ h'. fd_count h' = fd_count h) h"
  by (intro conjI keepsD process_request_keeps keeps_rules
      netlink_ops_keep_links vcan_keeps_links vcan_keeps_socks)

text \<open>A request whose operation byte is not one of the four the daemon implements is
  answered with an error and touches nothing: no call is made and the name is not read. The
  enumerators \<open>CHECK_INTERFACE_STATE\<close>, \<open>VALIDATE_CAN_HARDWARE\<close> and \<open>CLIENT_REGISTER\<close> are among
  these.\<close>

theorem unknown_operation_refused:
  assumes "operation req \<notin> {type_code SET_INTERFACE_STATE, type_code CREATE_VCAN_INTERFACE,
             type_code INTERFACE_EXISTS, type_code INTERFACE_IS_UP}"
  shows "run_state (process_request K nm req) h
    = (Some (mk_response (-1) ''Unknown request operation''), h)"
proof (cases "type_of_code (operation req)")
  case None
  then show ?thesis by (simp add: process_request_def)
next
  case (Some t)
  then have "operation req = type_code t" by (simp add: type_of_code_Some)
  with assms Some show ?thesis
    by (cases t) (simp_all add: process_request_def)
qed

theorem unknown_operation_refused_witness:
  "run_state (process_request sample_os mk_netlink_manager
      (mk_query_request CLIENT_REGISTER ''can0'')) []
    = (Some (mk_response (-1) ''Unknown request operation''), [])"
  by (rule unknown_operation_refused) (simp add: type_code.simps)

text \<open>C32: Processing a request of the right size, whatever its bytes and whatever the environment, runs
  into an undefined read exactly when none of the sixteen bytes of the name is a NUL and the operation
  is one of the four that use the name, and then it has not called the kernel before; in every other case there is a
  response. So a request that reached the daemon as sent by the library is always defined.\<close>

theorem name_read_defined:
  "wp (process_request K nm req) (\<lambda>r h'.
      if NUL \<notin> set (interface_name req)
         \<and> type_of_code (operation req) \<in> Some ` {SET_INTERFACE_STATE, CREATE_VCAN_INTERFACE,
              INTERFACE_EXISTS, INTERFACE_IS_UP}
      then r = None \<and> h' = h else r \<noteq> None) h
   \<and> wp (process_request K nm (decode_request (encode_request (mk_set_request n s f b))))
      (\<lambda>r _. r \<noteq> None) h
   \<and> wp (process_request K nm (decode_request (encode_request (mk_query_request op n))))
      (\<lambda>r _. r \<noteq> None) h"
proof -
  have named: "wp (with_name q f) (\<lambda>r h'. if NUL \<notin> set (interface_name q) then r = None \<and> h' = h
      else r \<noteq> None) h" for q f
    by (auto simp: with_name_def c_str_def wp_rules intro!: wp_any [where m = "f x" for x])
  have any: "wp (process_request K nm q) (\<lambda>r h'.
      if NUL \<notin> set (interface_name q)
         \<and> type_of_code (operation q) \<in> Some ` {SET_INTERFACE_STATE, CREATE_VCAN_INTERFACE,
              INTERFACE_EXISTS, INTERFACE_IS_UP}
      then r = None \<and> h' = h else r \<noteq> None) h" for q
    using named [of q]
    by (cases "type_of_code (operation q)"; cases "the (type_of_code (operation q))")
      (simp_all add: process_request_def wp_return)
  have ok: "wp (process_request K nm q) (\<lambda>r _. r \<noteq> None) h"
    if "c_str (interface_name q) = Some m" for q m
    using that by (intro wp_conseq [OF any]) (auto simp: c_str_def split: if_splits)
  have sent: "decode_request (encode_request (mk_set_request n s f b)) = mk_set_request n s f b"
    "decode_request (encode_request (mk_query_request op n)) = mk_query_request op n"
    by (simp_all add: request.dec_enc)
  show ?thesis
    unfolding sent
    using any ok [OF c_str_request_name(1)] ok [OF c_str_request_name(2)] by blast
qed

text \<open>An interface that is not of CAN link type but whose name starts with \<open>can\<close> (a virtual
  one, say) cannot be brought up at a bitrate: the request fails on every path, and no change up
  is applied. Every request of the library to bring such a name up carries a bitrate.\<close>

theorem can_named_virtual_link_fails:
  assumes "int_replies K"
    and "\<And>h l. rv (respond K h (Nl (LinkIsCan l))) = 0"
    and "type_of_code (operation req) = Some SET_INTERFACE_STATE"
    and "c_str (interface_name req) = Some n" and "prefix ''can'' n"
    and "req_up req" and "set_bitrate req"
  shows "wp (process_request K nm req) (\<lambda>r h'. \<exists>resp. r = Some resp \<and> result resp \<noteq> 0) h"
proof -
  have rate: "wp (set_can_bitrate_libnl K nm n b) (\<lambda>r h'. result r \<noteq> 0) t" for b t
    unfolding set_can_bitrate_libnl_def using assms(2,5)
    by (auto simp: wp_rules Let_def simp del: prefix_code intro!: wp_call_os)
  have rest: "wp (rate_then_state K nm n b True) (\<lambda>r h'. result r \<noteq> 0) t" for b t
    unfolding rate_then_state_def wp_rules by (rule wp_conseq [OF rate]) simp
  have any: "wp m (\<lambda>_ _. True) t" for m :: "'b io" and t
    by (simp add: wp_fst_snd)
  show ?thesis
    unfolding process_set_state [OF assms(3,4)] set_state_request_stages wp_rules
    using assms(6,7)
    by (auto split: option.splits intro!: rest wp_conseq [OF any])
qed

definition vcan_os :: os where
  "vcan_os = sample_os\<lparr>respond := (\<lambda>h c. case c of
       Nl (LinkIsCan _) \<Rightarrow> plain_reply 0
     | _ \<Rightarrow> respond sample_os h c)\<rparr>"

theorem can_named_virtual_link_fails_witness:
  "wp (process_request vcan_os mk_netlink_manager (mk_set_request ''canvas0'' True True 500000))
     (\<lambda>r h'. \<exists>resp. r = Some resp \<and> result resp \<noteq> 0) []"
proof -
  have int: "int_replies vcan_os"
    by (auto simp: int_replies_def vcan_os_def sample_os_def split: netlink_call.splits)
  show ?thesis
    by (rule can_named_virtual_link_fails [OF int, where n = "''canvas0''"])
      (simp_all add: vcan_os_def mk_set_request_def c_str_fill_array cstr_chars_def)
qed

text \<open>Initializing the manager and cleaning it up leaves netlink sockets and caches counted as
  before, whether the initialization succeeded or failed at any of its three steps; after a
  failure the manager holds no handle.\<close>

theorem netlink_manager_lifecycle:
  "wp (nm_initialize K mk_netlink_manager)
     (\<lambda>(rc, nm) h'. (rc = 0 \<or> rc = -1 \<and> nl_socket nm = 0 \<and> link_cache nm = 0)
        \<and> wp (nm_cleanup K nm) (\<lambda>nm' h''. nm' = mk_netlink_manager
             \<and> nl_socks h'' = nl_socks h \<and> nl_caches h'' = nl_caches h) h') h"
  unfolding nm_initialize_def nm_cleanup_def mk_netlink_manager_def
  by (auto simp: wp_rules Let_def fun_eq_iff intro!: wp_call_os_any)

end
