(* ===== verification/Netlink_Client.thy ===== *)
theory Netlink_Client
  imports Messages Unix_Socket Vcan
begin

section \<open>The library's client of the daemon\<close>

text \<open>
  \<open>Interface/NetlinkClient.cpp\<close> and \<open>Interface/IPCManager.cpp\<close>: registration with the daemon,
  one connection per request, the four operations on interfaces and the fallback to the shell.
  A \<open>unique_ptr<UnixSocket>\<close> is destroyed where its scope ends. Character arrays of a response
  are read up to their terminator; when a response that was received has none, the read leaves the
  array, which is undefined, and the result is \<open>None\<close>.
\<close>

subsection \<open>Registration and requests\<close>

record netlink_client =
  client_channel :: string
  registered :: bool

definition mk_netlink_client :: netlink_client where
  "mk_netlink_client = \<lparr>client_channel = [], registered = False\<rparr>"

definition ensure_registered ::
  "os \<Rightarrow> netlink_client \<Rightarrow> ((Error, unit) expected option \<times> netlink_client) io" where
  "ensure_registered K c =
     (if registered c then State_Monad.return (Some (Inr ()), c)
      else do {
        (ok, s) \<leftarrow> initialize K (mk_unix_socket ''daemon'' CLIENT);
        res \<leftarrow> (if \<not> ok then
            State_Monad.return (Some (Inl (mk_error NetlinkBringUpError
              ''Failed to connect to daemon for registration'')), c)
          else do {
            p \<leftarrow> thr K Getpid;
            n \<leftarrow> unix_send K s
              (encode_register_request (mk_register_request (word_of_int (rv p))));
            if n < 0 then
              State_Monad.return (Some (Inl (mk_error NetlinkBringUpError
                ''Failed to send registration request to daemon'')), c)
            else do {
              (bytes_received, bytes) \<leftarrow> unix_recv K s sizeof_ClientRegisterResponse 5000;
              case receive sizeof_ClientRegisterResponse decode_register_response
                     bytes_received bytes of
                None \<Rightarrow> State_Monad.return (Some (Inl (mk_error NetlinkBringUpError
                  ''Failed to receive registration response from daemon'')), c)
              | Some response \<Rightarrow>
                  (if reg_result response \<noteq> 0 then
                     State_Monad.return (Some (Inl (mk_error NetlinkBringUpError
                       ''Daemon failed to register client'')), c)
                   else State_Monad.return (case c_str (client_channel_name response) of
                       None \<Rightarrow> (None, c)
                     | Some name \<Rightarrow>
                         (Some (Inr ()), c\<lparr>client_channel := name, registered := True\<rparr>)))
            }
          });
        _ \<leftarrow> unix_destroy K s;
        State_Monad.return res
      })"

definition send_request ::
  "os \<Rightarrow> netlink_client \<Rightarrow> NetlinkRequest
     \<Rightarrow> ((Error, NetlinkResponse) expected option \<times> netlink_client) io" where
  "send_request K c req = do {
     (reg_result, c) \<leftarrow> ensure_registered K c;
     case reg_result of
       None \<Rightarrow> State_Monad.return (None, c)
     | Some (Inl e) \<Rightarrow> State_Monad.return (Some (Inl e), c)
     | Some (Inr _) \<Rightarrow> do {
         (ok, s) \<leftarrow> initialize K (mk_unix_socket (client_channel c) CLIENT);
         res \<leftarrow> (if \<not> ok then
             State_Monad.return (Inl (mk_error NetlinkBringUpError
               ''Failed to connect to daemon client channel''))
           else do {
             n \<leftarrow> unix_send K s (encode_request req);
             if n < 0 then
               State_Monad.return (Inl (mk_error NetlinkBringUpError
                 ''Failed to send request to daemon''))
             else do {
               (bytes_received, bytes) \<leftarrow> unix_recv K s sizeof_NetlinkResponse 5000;
               State_Monad.return
                 (case receive sizeof_NetlinkResponse decode_response bytes_received bytes of
                    None \<Rightarrow> Inl (mk_error NetlinkBringUpError
                      ''Failed to receive response from daemon'')
                  | Some response \<Rightarrow> Inr response)
             }
           });
         _ \<leftarrow> unix_destroy K s;
         State_Monad.return (Some res, c)
       }
   }"

subsection \<open>The fallback to the shell\<close>

definition fallback_system_call ::
  "os \<Rightarrow> string \<Rightarrow> bool \<Rightarrow> 32 word \<Rightarrow> (Error, unit) expected io" where
  "fallback_system_call K name state rate = do {
     first \<leftarrow> (if state \<and> prefix ''can'' name then do {
         r \<leftarrow> thr K (System (cstr_chars (''sudo ip link set '' @ name @ '' type can bitrate ''
                @ dec_nat (unat rate))));
         State_Monad.return (if rv r \<noteq> 0
           then Inl (mk_error NetlinkBringUpError
             (''Failed to set bitrate '' @ dec_nat (unat rate) @ '' for interface '' @ name
                @ '': system() returned '' @ dec_int (rv r)))
           else Inr ())
       } else State_Monad.return (Inr ()));
     case first of
       Inl e \<Rightarrow> State_Monad.return (Inl e)
     | Inr _ \<Rightarrow> do {
         r \<leftarrow> thr K (System (cstr_chars
                (if state then ''sudo ip link set '' @ name @ '' up''
                 else ''sudo ip link set '' @ name @ '' down'')));
         State_Monad.return (if rv r \<noteq> 0
           then Inl (mk_error (if state then NetlinkBringUpError else NetlinkBringDownError)
             (''Failed to '' @ (if state then ''bring up'' else ''bring down'') @ '' interface ''
                @ name @ '': system() returned '' @ dec_int (rv r)))
           else Inr ())
       }
   }"

subsection \<open>The operations on interfaces\<close>

text \<open>The error of a response that reports one, with the message the response carries.\<close>

definition refusal :: "ErrorCode \<Rightarrow> string \<Rightarrow> NetlinkResponse \<Rightarrow> (Error, 'a) expected option" where
  "refusal error_code what response =
     map_option (\<lambda>msg. Inl (mk_error error_code (what @ msg))) (c_str (error_message response))"

definition set_interface_state ::
  "os \<Rightarrow> netlink_client \<Rightarrow> string \<Rightarrow> bool \<Rightarrow> 32 word
     \<Rightarrow> ((Error, unit) expected option \<times> netlink_client) io" where
  "set_interface_state K c name up rate = do {
     let is_can_interface = prefix ''can'' name;
     let request = mk_set_request name up (is_can_interface \<and> up) rate;
     (response_result, c) \<leftarrow> send_request K c request;
     case response_result of
       None \<Rightarrow> State_Monad.return (None, c)
     | Some (Inl _) \<Rightarrow> do {
         r \<leftarrow> fallback_system_call K name up rate;
         State_Monad.return (Some r, c)
       }
     | Some (Inr response) \<Rightarrow>
         State_Monad.return (if result response \<noteq> 0
           then refusal (if up then NetlinkBringUpError else NetlinkBringDownError)
             (''Daemon failed to '' @ (if up then ''bring up'' else ''bring down'')
                @ '' interface '' @ name @ '': '') response
           else Some (Inr ()), c)
   }"

definition interface_exists ::
  "os \<Rightarrow> netlink_client \<Rightarrow> string \<Rightarrow> ((Error, bool) expected option \<times> netlink_client) io" where
  "interface_exists K c name = do {
     (response_result, c) \<leftarrow> send_request K c (mk_query_request INTERFACE_EXISTS name);
     State_Monad.return (case response_result of
         None \<Rightarrow> None
       | Some (Inl e) \<Rightarrow> Some (Inl e)
       | Some (Inr response) \<Rightarrow>
           (if result response \<noteq> 0
            then refusal NetlinkBringUpError
              (''Failed to check if interface '' @ name @ '' exists: '') response
            else Some (Inr (exists response))), c)
   }"

definition interface_is_up ::
  "os \<Rightarrow> netlink_client \<Rightarrow> string \<Rightarrow> ((Error, bool) expected option \<times> netlink_client) io" where
  "interface_is_up K c name = do {
     (response_result, c) \<leftarrow> send_request K c (mk_query_request INTERFACE_IS_UP name);
     State_Monad.return (case response_result of
         None \<Rightarrow> None
       | Some (Inl e) \<Rightarrow> Some (Inl e)
       | Some (Inr response) \<Rightarrow>
           (if result response \<noteq> 0
            then refusal NetlinkBringUpError
              (''Failed to check if interface '' @ name @ '' is up: '') response
            else Some (Inr (is_up response))), c)
   }"

definition create_vcan_interface ::
  "os \<Rightarrow> netlink_client \<Rightarrow> string \<Rightarrow> ((Error, unit) expected option \<times> netlink_client) io" where
  "create_vcan_interface K c name = do {
     (response_result, c) \<leftarrow> send_request K c (mk_query_request CREATE_VCAN_INTERFACE name);
     State_Monad.return (case response_result of
         None \<Rightarrow> None
       | Some (Inl e) \<Rightarrow> Some (Inl e)
       | Some (Inr response) \<Rightarrow>
           (if result response \<noteq> 0
            then refusal NetlinkBringUpError
              (''Failed to create VCAN interface '' @ name @ '': '') response
            else Some (Inr ())), c)
   }"

lemma refusal_not_value [simp]: "refusal k w resp \<noteq> Some (Inr x)"
  by (simp add: refusal_def)

lemma refusal_None:
  "refusal k w resp = None \<longleftrightarrow> NUL \<notin> set (error_message resp)"
  "(\<exists>r. refusal k w resp = Some r) \<longleftrightarrow> NUL \<in> set (error_message resp)"
  by (simp_all add: refusal_def c_str_def)

lemma refusal_code: "refusal k w resp = Some (Inl e) \<Longrightarrow> code e = k"
  by (auto simp: refusal_def mk_error_def)

subsection \<open>Descriptors and registration\<close>

lemma keeps_ensure_registered [keeps_rules]: "keeps fd_delta (ensure_registered K c)"
  unfolding ensure_registered_def
  by (intro keeps_rules unix_handle.scope_balanced [where g = "\<lambda>r. r"]) simp_all

lemma keeps_send_request [keeps_rules]: "keeps fd_delta (send_request K c req)"
  unfolding send_request_def
  by (intro keeps_rules unix_handle.scope_balanced)

lemma keeps_fallback [keeps_rules]: "keeps fd_delta (fallback_system_call K n s b)"
  unfolding fallback_system_call_def by (intro keeps_rules) simp_all

lemma client_ops_keep_fds [keeps_rules]:
  "keeps fd_delta (set_interface_state K c n up b)"
  "keeps fd_delta (interface_exists K c n)"
  "keeps fd_delta (interface_is_up K c n)"
  "keeps fd_delta (create_vcan_interface K c n)"
  unfolding set_interface_state_def interface_exists_def interface_is_up_def
    create_vcan_interface_def
  by (intro keeps_rules)+

lemma ensure_registered_again:
  "registered c \<Longrightarrow> ensure_registered K c = State_Monad.return (Some (Inr ()), c)"
  by (simp add: ensure_registered_def)

lemmas socket_any =
  wp_any [where m = "initialize K s" for K s]
  wp_any [where m = "unix_destroy K s" for K s]
  wp_any [where m = "unix_send K s b" for K s b]
  wp_any [where m = "unix_recv K s b t" for K s b t]

lemma ensure_registered_outcome:
  "wp (ensure_registered K c)
     (\<lambda>(res, c') h'. (res = Some (Inr ()) \<longleftrightarrow> registered c') \<and> (res \<noteq> Some (Inr ()) \<longrightarrow> c' = c)
        \<and> (registered c \<longrightarrow> c' = c)) h"
proof (cases "registered c")
  case True
  then show ?thesis by (simp add: ensure_registered_again wp_return)
next
  case False
  then show ?thesis
    unfolding ensure_registered_def
    by (auto simp: wp_rules split: prod.split option.split
        intro!: socket_any wp_call_os_any)
qed

lemma send_request_client:
  "wp (send_request K c req)
     (\<lambda>(res, c') h'. (registered c \<longrightarrow> c' = c) \<and> (registered c' \<or> c' = c)
        \<and> (\<forall>x. res = Some (Inr x) \<longrightarrow> registered c')) h"
  unfolding send_request_def wp_rules
  by (rule wp_conseq [OF ensure_registered_outcome])
    (auto simp: wp_rules split: sum.split prod.split option.split intro!: socket_any)

subsection \<open>What an answer is\<close>

lemma wp_initialize_client:
  "wp (initialize K (mk_unix_socket p CLIENT))
     (\<lambda>(ok, s) h'. (ok \<longrightarrow> s = (mk_unix_socket p CLIENT)\<lparr>socket_fd := socket_fd s, connected := True\<rparr>
         \<and> socket_fd s \<noteq> -1 \<and>
        (\<exists>r1 r2. h' = (Posix (ConnectUnix (socket_fd s) (cstr_chars (''/run/hycan_'' @ p))), r2)
              # (Posix SocketUnix, r1) # h))
       \<and> mode s = CLIENT \<and> (\<not> ok \<longrightarrow> socket_fd s = -1)) h"
  unfolding initialize_def unix_close_def setup_address_def mk_unix_socket_def
  by (auto simp: wp_rules Let_def intro!: wp_call_os_any)

lemma wp_unix_destroy_client:
  "mode s = CLIENT \<Longrightarrow> wp (unix_destroy K s)
     (\<lambda>_ h'. \<exists>r. h' = (if socket_fd s = -1 then h else (Posix (Close (socket_fd s)), r) # h)) h"
  by (auto simp: unix_destroy_def unix_close_def wp_rules intro!: wp_call_os_any)

lemma wp_unix_recv_connected:
  "connected s \<Longrightarrow> socket_fd s \<noteq> -1 \<Longrightarrow> 0 < n \<Longrightarrow>
   wp (unix_recv K s n 5000) (\<lambda>(k, b) h'.
      0 < k \<longrightarrow> (\<exists>r4 r5.
      h' = (Posix (Recv (socket_fd s) n), r5) # (Posix (Select (socket_fd s) 5 0), r4) # h
        \<and> k = rv r5 \<and> b = buf r5)) h"
  by (auto simp: unix_recv_def wait_readable_def wp_rules intro!: wp_call_os_any)

text \<open>
  The abstract view of a request: a connection to the client's channel on which exactly the
  bytes of the request were sent, a structure of the size of a response was received within
  five seconds, and which was closed again. The answer is what was received.
\<close>

definition exchange ::
  "netlink_client \<Rightarrow> NetlinkRequest \<Rightarrow> NetlinkResponse \<Rightarrow> history \<Rightarrow> bool" where
  "exchange c req resp h \<longleftrightarrow> (\<exists>fd r1 r2 r3 r4 r5 r6 h0.
     h = (Posix (Close fd), r6) # (Posix (Recv fd sizeof_NetlinkResponse), r5)
       # (Posix (Select fd 5 0), r4) # (Posix (Send fd (encode_request req)), r3)
       # (Posix (ConnectUnix fd (cstr_chars (''/run/hycan_'' @ client_channel c))), r2)
       # (Posix SocketUnix, r1) # h0
     \<and> registered c \<and> rv r3 \<ge> 0 \<and> rv r5 = int sizeof_NetlinkResponse
     \<and> resp = decode_response (buf r5))"

lemma send_request_exchange:
  "wp (send_request K c req)
     (\<lambda>(res, c') h'. \<forall>resp. res = Some (Inr resp) \<longrightarrow> exchange c' req resp h') h"
  unfolding send_request_def wp_rules
  by (rule wp_conseq [OF ensure_registered_outcome])
    (auto 0 3 simp: wp_rules unix_send_def split: sum.split prod.split option.split
      intro!: wp_conseq [OF wp_initialize_client] wp_call_os_any
        wp_conseq [OF wp_unix_recv_connected] wp_conseq [OF wp_unix_destroy_client],
      (auto simp: exchange_def receive_def sizeof_defs split: if_splits)+)

text \<open>A value returned by a query is a field of an answer that reports success.\<close>

definition from_daemon ::
  "netlink_client \<Rightarrow> NetlinkRequest \<Rightarrow> (NetlinkResponse \<Rightarrow> 'a) \<Rightarrow> history
     \<Rightarrow> (Error, 'a) expected option \<Rightarrow> bool" where
  "from_daemon c req val h r \<longleftrightarrow> (\<forall>x. r = Some (Inr x) \<longrightarrow>
     (\<exists>resp. exchange c req resp h \<and> result resp = 0 \<and> x = val resp))"

lemma queries_answered:
  "wp (interface_exists K c name) (\<lambda>(r, c') h'.
       from_daemon c' (mk_query_request INTERFACE_EXISTS name) exists h' r) h"
  "wp (interface_is_up K c name) (\<lambda>(r, c') h'.
       from_daemon c' (mk_query_request INTERFACE_IS_UP name) is_up h' r) h"
  "wp (create_vcan_interface K c name) (\<lambda>(r, c') h'.
       from_daemon c' (mk_query_request CREATE_VCAN_INTERFACE name) (\<lambda>_. ()) h' r) h"
  unfolding interface_exists_def interface_is_up_def create_vcan_interface_def
    from_daemon_def wp_rules
  by (rule wp_conseq [OF send_request_exchange];
      auto simp: wp_rules split: option.splits sum.splits if_splits)+

subsection \<open>What is received\<close>

text \<open>The complete responses to requests that a history received, newest first.\<close>

fun answers :: "history \<Rightarrow> byte list list" where
  "answers [] = []"
| "answers ((c, r) # h) = (case c of
     Posix (Recv fd n) \<Rightarrow>
       (if n = sizeof_NetlinkResponse \<and> rv r = int sizeof_NetlinkResponse
        then buf r # answers h else answers h)
   | _ \<Rightarrow> answers h)"

text \<open>
  How often a history received something complete whose array the client then reads past its end:
  a registration that reports success under a name without a terminator, or a response that
  reports an error in a message without one.
\<close>

definition endless_registration :: "byte list \<Rightarrow> bool" where
  "endless_registration b \<longleftrightarrow> reg_result (decode_register_response b) = 0
     \<and> NUL \<notin> set (client_channel_name (decode_register_response b))"

definition endless_response :: "byte list \<Rightarrow> bool" where
  "endless_response b \<longleftrightarrow> result (decode_response b) \<noteq> 0
     \<and> NUL \<notin> set (error_message (decode_response b))"

fun overreads :: "history \<Rightarrow> nat" where
  "overreads [] = 0"
| "overreads ((c, r) # h) = (case c of
     Posix (Recv fd n) \<Rightarrow>
       (if n = sizeof_ClientRegisterResponse \<and> rv r = int n \<and> endless_registration (buf r)
           \<or> n = sizeof_NetlinkResponse \<and> rv r = int n \<and> endless_response (buf r)
        then Suc (overreads h) else overreads h)
   | _ \<Rightarrow> overreads h)"

lemma receptions_quiet:
  "unchanged answers (initialize K s)" "unchanged answers (unix_destroy K s)"
  "unchanged answers (unix_send K s b)"
  "unchanged overreads (initialize K s)" "unchanged overreads (unix_destroy K s)"
  "unchanged overreads (unix_send K s b)"
  by (rule not_receiving; simp split: posix_call.split)+

lemmas receptions_quietD = receptions_quiet [THEN keepsD]

lemma receiving_registration:
  "wp (unix_recv K s sizeof_ClientRegisterResponse 5000) (\<lambda>(k, b) h'. answers h' = answers h
     \<and> overreads h' = (if k = 68 \<and> endless_registration b then 1 else 0) + overreads h) h"
  unfolding unix_recv_def wait_readable_def
  by (auto simp: wp_rules sizeof_defs intro!: wp_call_os_any)

lemma receiving_response:
  "wp (unix_recv K s sizeof_NetlinkResponse 5000) (\<lambda>(k, b) h'.
     answers h' = (if k = 264 then [b] else []) @ answers h
     \<and> overreads h' = (if k = 264 \<and> endless_response b then 1 else 0) + overreads h) h"
  unfolding unix_recv_def wait_readable_def
  by (auto simp: wp_rules sizeof_defs intro!: wp_call_os_any)

lemma ensure_registered_receives:
  "wp (ensure_registered K c) (\<lambda>(res, _) h'. answers h' = answers h
     \<and> overreads h' = (if res = None then 1 else 0) + overreads h) h"
  unfolding ensure_registered_def
  by (auto simp: wp_rules receive_def sizeof_ClientRegisterResponse_def endless_registration_def
      c_str_def split: prod.split option.split if_splits
      intro!: wp_conseq [OF wp_conj [OF receptions_quietD(1,4)]] wp_call_os_any
        wp_conseq [OF wp_conj [OF receptions_quietD(3,6)]]
        wp_conseq [OF receiving_registration [unfolded sizeof_ClientRegisterResponse_def]]
        wp_conseq [OF wp_conj [OF receptions_quietD(2,5)]])

text \<open>A request has a result exactly where one complete response to it was received.\<close>

lemma send_request_receives:
  "wp (send_request K c req) (\<lambda>(res, _) h'. case res of
       Some (Inr resp) \<Rightarrow> \<exists>b. answers h' = b # answers h \<and> resp = decode_response b
         \<and> overreads h' = (if endless_response b then 1 else 0) + overreads h
     | Some (Inl e) \<Rightarrow> answers h' = answers h \<and> overreads h' = overreads h
     | None \<Rightarrow> answers h' = answers h \<and> overreads h' = Suc (overreads h)) h"
  unfolding send_request_def wp_rules
  by (rule wp_conseq [OF ensure_registered_receives])
    (auto simp: wp_rules receive_def sizeof_NetlinkResponse_def split: prod.split option.split sum.split
      intro!: wp_conseq [OF wp_conj [OF receptions_quietD(1,4)]]
        wp_conseq [OF wp_conj [OF receptions_quietD(3,6)]]
        wp_conseq [OF receiving_response [unfolded sizeof_NetlinkResponse_def]]
        wp_conseq [OF wp_conj [OF receptions_quietD(2,5)]])

subsection \<open>What the shell is given\<close>

text \<open>The commands a history ran, newest first, with their exit statuses.\<close>

fun shell :: "history \<Rightarrow> (string \<times> int) list" where
  "shell [] = []"
| "shell ((c, r) # h) = (case c of Thr (System cmd) \<Rightarrow> (cmd, rv r) # shell h | _ \<Rightarrow> shell h)"

lemma send_request_shell: "unchanged shell (send_request K c req)"
  unfolding send_request_def ensure_registered_def
  by (intro keeps_rules socket_ops_unchanged unchanged_call) simp_all

text \<open>
  The commands of a fallback, in order, and what running them means: they are run one after the
  other, each is run only when those before it succeeded, and the whole succeeds when every
  command was run and succeeded.
\<close>

definition fallback_commands :: "string \<Rightarrow> bool \<Rightarrow> 32 word \<Rightarrow> string list" where
  "fallback_commands name up rate =
     (if up \<and> prefix ''can'' name
      then [''sudo ip link set '' @ name @ '' type can bitrate '' @ dec_nat (unat rate)] else [])
     @ [''sudo ip link set '' @ name @ (if up then '' up'' else '' down'')]"

definition ran :: "string list \<Rightarrow> (string \<times> int) list \<Rightarrow> bool \<Rightarrow> bool" where
  "ran cmds log ok \<longleftrightarrow> log \<noteq> []
     \<and> map fst log = map cstr_chars (take (length log) cmds)
     \<and> (\<forall>e \<in> set (butlast log). snd e = 0)
     \<and> (if ok then length log = length cmds \<and> snd (last log) = 0 else snd (last log) \<noteq> 0)"

definition direction_error :: "bool \<Rightarrow> ErrorCode" where
  "direction_error up = (if up then NetlinkBringUpError else NetlinkBringDownError)"

lemma fallback_runs_commands:
  "wp (fallback_system_call K name up rate)
     (\<lambda>r h'. (\<exists>log. shell h' = rev log @ shell h
          \<and> ran (fallback_commands name up rate) log (has_value r))
        \<and> (\<forall>e. r = Inl e \<longrightarrow> code e = direction_error up)) h"
  unfolding fallback_system_call_def
  by (auto simp: wp_rules direction_error_def mk_error_def simp del: prefix_code
      intro!: wp_call_os_any)
    (auto simp: logged ran_def fallback_commands_def simp del: prefix_code)

lemma fallback_receives: "unchanged answers (fallback_system_call K name up rate)"
  unfolding fallback_system_call_def by (intro keeps_rules unchanged_call; simp)

subsection \<open>Which channels are dialled\<close>

fun dialled :: "history \<Rightarrow> string list" where
  "dialled [] = []"
| "dialled ((c, r) # h) = (case c of
     Posix (ConnectUnix fd p) \<Rightarrow> p # dialled h | _ \<Rightarrow> dialled h)"

abbreviation channel_path :: "netlink_client \<Rightarrow> string" where
  "channel_path c \<equiv> cstr_chars (''/run/hycan_'' @ client_channel c)"

lemma initialize_dials:
  "wp (initialize K (mk_unix_socket p CLIENT)) (\<lambda>_ h'. dialled h' = dialled h
     \<or> dialled h' = cstr_chars (''/run/hycan_'' @ p) # dialled h) h"
  unfolding initialize_def unix_close_def setup_address_def mk_unix_socket_def
  by (auto simp: wp_rules Let_def intro!: wp_call_os_any)

lemma unix_ops_dial [keeps_rules]:
  "unchanged dialled (unix_destroy K s)" "unchanged dialled (unix_send K s b)"
  "unchanged dialled (unix_recv K s n t)"
  unfolding unix_destroy_def unix_close_def unix_send_def unix_recv_def wait_readable_def
  by (intro keeps_rules unchanged_call; simp)+

lemma send_request_registered:
  assumes "registered c"
  shows "wp (send_request K c req) (\<lambda>(res, c') h'. c' = c
     \<and> (dialled h' = dialled h \<or> dialled h' = channel_path c # dialled h)) h"
  unfolding send_request_def ensure_registered_again [OF assms] wp_rules
  by (auto simp: wp_rules split: prod.splits option.splits
      intro!: wp_conseq [OF initialize_dials] wp_conseq [OF keepsD [OF unix_ops_dial(1)]]
        wp_conseq [OF keepsD [OF unix_ops_dial(2)]] wp_conseq [OF keepsD [OF unix_ops_dial(3)]])

subsection \<open>Properties\<close>

text \<open>No operation of the client leaks or double-closes a descriptor: whatever fails
  (connecting, sending, receiving, the daemon's answer), both connections it may open are closed
  exactly once when it returns.\<close>

theorem client_operations_balanced:
  "wp (set_interface_state K c n up b) (\<lambda>_ h'. fd_count h' = fd_count h) h
   \<and> wp (interface_exists K c n) (\<lambda>_ h'. fd_count h' = fd_count h) h
   \<and> wp (interface_is_up K c n) (\<lambda>_ h'. fd_count h' = fd_count h) h
   \<and> wp (create_vcan_interface K c n) (\<lambda>_ h'. fd_count h' = fd_count h) h"
  by (intro conjI keepsD keeps_rules)

text \<open>C23: Setting an interface's state has one of three outcomes. Either exactly one complete
  response was received, on the client's channel, to the request for exactly this name, direction and
  bitrate (a bitrate is set only for a name that starts with \<open>can\<close> and only when bringing it up):
  then no shell command was run, and the result is success if and only if the response reports
  success. Or no complete response was received: then the fallback's commands were run in order, each
  only after its predecessors succeeded, and the result is success if and only if all of them were
  run and succeeded. Or registering already read an array past its end. A refusal by the daemon is
  thus never overridden by the shell. The error code names the direction.\<close>

theorem set_interface_state_outcome:
  "wp (set_interface_state K c name up rate)
     (\<lambda>(r, c') h'.
        (\<exists>b resp. answers h' = b # answers h \<and> resp = decode_response b
           \<and> exchange c' (mk_set_request name up (prefix ''can'' name \<and> up) rate) resp h'
           \<and> shell h' = shell h \<and> (r = Some (Inr ()) \<longleftrightarrow> result resp = 0)
           \<and> (r = None \<longleftrightarrow> endless_response b)
           \<and> (\<forall>e. r = Some (Inl e) \<longrightarrow> code e = direction_error up))
      \<or> (\<exists>res log. r = Some res \<and> answers h' = answers h \<and> shell h' = rev log @ shell h
           \<and> ran (fallback_commands name up rate) log (has_value res)
           \<and> (\<forall>e. res = Inl e \<longrightarrow> code e = direction_error up))
      \<or> (r = None \<and> answers h' = answers h \<and> shell h' = shell h
           \<and> overreads h' = Suc (overreads h))) h"
  unfolding set_interface_state_def wp_rules Let_def
  by (rule wp_conseq [OF wp_conj [OF send_request_exchange
        wp_conj [OF keepsD [OF send_request_shell] send_request_receives]]])
    (auto simp: wp_rules direction_error_def endless_response_def refusal_None simp del: prefix_code
      split: prod.splits option.splits sum.splits dest: refusal_code
      intro!: wp_conseq [OF wp_conj [OF fallback_runs_commands keepsD [OF fallback_receives]]])

text \<open>An environment in which a daemon refuses what it is asked for.\<close>

definition refusing_os :: os where
  "refusing_os = sample_os\<lparr>respond := (\<lambda>h c. case c of
       Posix (Recv fd n) \<Rightarrow> (plain_reply 264)
         \<lparr>buf := encode_response (mk_response 1 ''Interface not found'')\<rparr>
     | _ \<Rightarrow> respond sample_os h c)\<rparr>"

theorem set_interface_state_outcome_witness:
  "wp (set_interface_state refusing_os \<lparr>client_channel = ''HyCAN_Client_7'', registered = True\<rparr> ''can0'' True 500000)
     (\<lambda>(r, c') h'. r \<noteq> Some (Inr ()) \<and> r \<noteq> None \<and> shell h' = []) []"
proof -
  let ?c = "\<lparr>client_channel = ''HyCAN_Client_7'', registered = True\<rparr>"
  let ?m = "set_interface_state refusing_os ?c ''can0'' True 500000"
  define b where "b = encode_response (mk_response 1 ''Interface not found'')"
  have b: "result (decode_response b) = 1" "\<not> endless_response b"
    unfolding endless_response_def b_def response.dec_enc [OF wf_constructors(6)]
    by (simp_all add: constructors_terminated)
  have one: "wp ?m (\<lambda>_ h'. answers h' = [b]) []"
    unfolding set_interface_state_def send_request_def ensure_registered_def initialize_def
      unix_send_def unix_recv_def wait_readable_def unix_destroy_def unix_close_def
      setup_address_def mk_unix_socket_def
    by (auto simp: wp_rules Let_def refusing_os_def sample_os_def sun_path_size_def receive_def
        sizeof_defs response.dec_enc b_def simp del: prefix_code intro!: wp_call_os)
  show ?thesis
    by (rule wp_conseq [OF wp_conj [OF one set_interface_state_outcome]]) (use b in \<open>fastforce simp del: prefix_code\<close>)
qed

text \<open>The other three operations never invent an answer: the value they return is read from a
  complete response, received on the client's own channel, to a request that carries the
  operation and the name asked for.\<close>

theorem queries_report_the_daemon:
  "wp (interface_exists K c name) (\<lambda>(r, c') h'.
       from_daemon c' (mk_query_request INTERFACE_EXISTS name) exists h' r) h
   \<and> wp (interface_is_up K c name) (\<lambda>(r, c') h'.
       from_daemon c' (mk_query_request INTERFACE_IS_UP name) is_up h' r) h
   \<and> wp (create_vcan_interface K c name) (\<lambda>(r, c') h'.
       from_daemon c' (mk_query_request CREATE_VCAN_INTERFACE name) (\<lambda>_. ()) h' r) h"
  by (intro conjI queries_answered)

text \<open>C27: A registration is never renewed. When the channel of a registered client can no longer
  be connected to (the daemon has dropped the session, or was restarted), every request fails,
  the client stays registered with the same channel, and nothing but that channel is dialled;
  so every later request fails in the same way although the daemon may be there.\<close>

theorem lost_channel_never_renewed:
  assumes "registered c"
    and "\<And>h fd. rv (respond K h (Posix (ConnectUnix fd (channel_path c)))) = -1"
  shows "wp (send_request K c req) (\<lambda>(res, c') h'. (\<exists>e. res = Some (Inl e)) \<and> c' = c
     \<and> (dialled h' = dialled h \<or> dialled h' = channel_path c # dialled h)) h"
proof -
  have init: "wp (initialize K (mk_unix_socket (client_channel c) CLIENT)) (\<lambda>(ok, s) _. \<not> ok) t" for t
    unfolding initialize_def unix_close_def setup_address_def mk_unix_socket_def
    using assms(2) by (auto simp: wp_rules Let_def intro!: wp_call_os)
  have fails: "wp (send_request K c req) (\<lambda>(res, c') h'. \<exists>e. res = Some (Inl e)) h"
    unfolding send_request_def ensure_registered_again [OF assms(1)] wp_rules
    by (auto simp: wp_rules split: prod.split intro!: wp_conseq [OF init] socket_any(2))
  show ?thesis
    by (rule wp_conseq [OF wp_conj [OF fails send_request_registered [OF assms(1)]]]) auto
qed

text \<open>An environment in which only the daemon's registration socket accepts connections.\<close>

definition restarted_daemon_os :: os where
  "restarted_daemon_os = sample_os\<lparr>respond := (\<lambda>h c. case c of
       Posix (ConnectUnix fd p) \<Rightarrow> plain_reply (if p = ''/run/hycan_daemon'' then 0 else -1)
     | _ \<Rightarrow> respond sample_os h c)\<rparr>"

theorem lost_channel_never_renewed_witness:
  "wp (send_request restarted_daemon_os
        \<lparr>client_channel = ''HyCAN_Client_7'', registered = True\<rparr>
        (mk_query_request INTERFACE_EXISTS ''can0''))
     (\<lambda>(res, c') h'. (\<exists>e. res = Some (Inl e)) \<and> c' = \<lparr>client_channel = ''HyCAN_Client_7'', registered = True\<rparr>
        \<and> (dialled h' = dialled [] \<or> dialled h'
             = channel_path \<lparr>client_channel = ''HyCAN_Client_7'', registered = True\<rparr> # dialled [])) []"
  by (rule lost_channel_never_renewed) (simp_all add: restarted_daemon_os_def cstr_chars_def)

end
