(* ===== verification/Ipc_Manager.thy ===== *)
theory Ipc_Manager
  imports Netlink_Client
begin

section \<open>The process-wide manager of the library\<close>

text \<open>
  \<open>Interface/IPCManager.cpp\<close>: the singleton every \<open>Interface\<close> of a process goes through. It
  makes its one \<open>NetlinkClient\<close> on first use. Neither class has a lock; the model here is of
  calls made one after the other, and \<open>Manager_Race\<close> has threads that make them at once. An allocation that throws is not modelled; a call through a
  null \<open>client_\<close> would be undefined and is the result \<open>None\<close>, as an undefined read in the client is.
\<close>

subsection \<open>Calls in sequence\<close>

text \<open>The operations of a client as values, and running a list of them.\<close>

datatype client_op =
    SetState string bool "32 word"
  | Exists string
  | IsUp string
  | CreateVcan string

fun run_all :: "('op \<Rightarrow> 'c \<Rightarrow> ('r \<times> 'c) io) \<Rightarrow> 'op list \<Rightarrow> 'c \<Rightarrow> ('r list \<times> 'c) io" where
  "run_all run [] c = State_Monad.return ([], c)"
| "run_all run (x # xs) c = do {
     (r, c) \<leftarrow> run x c;
     (rs, c) \<leftarrow> run_all run xs c;
     State_Monad.return (r # rs, c)
   }"

text \<open>
  What the users of a client rely on: an operation gives back the descriptors it opens,
  registration happens once, and only what is received can make a result undefined. \<open>link\<close> is the
  channel an object is registered with, if any; \<open>undefined_result\<close> are the results of an undefined
  read.
\<close>

locale daemon_link =
  fixes run :: "'op \<Rightarrow> 'c \<Rightarrow> ('r \<times> 'c) io"
    and link :: "'c \<Rightarrow> string option"
    and valid :: "'c \<Rightarrow> bool"
    and undefined_result :: "'r \<Rightarrow> bool"
  assumes keeps_fds: "keeps fd_delta (run x c)"
    and keeps_link: "valid c \<Longrightarrow> wp (run x c) (\<lambda>(r, c') h'. valid c'
       \<and> overreads h' = (if undefined_result r then 1 else 0) + overreads h
       \<and> (link c \<noteq> None \<longrightarrow> link c' = link c)) h"
begin

lemma run_all_keeps_fds: "keeps fd_delta (run_all run xs c)"
proof (induction xs arbitrary: c)
  case Nil
  then show ?case by (auto intro: keeps_rules)
next
  case (Cons x xs)
  show ?case
    unfolding run_all.simps by (intro keeps_rules keeps_fds Cons.IH)
qed

lemma run_all_keeps_link:
  "valid c \<Longrightarrow> wp (run_all run xs c) (\<lambda>(rs, c') h'. valid c' \<and> length rs = length xs
     \<and> overreads h' = length (filter undefined_result rs) + overreads h
     \<and> (link c \<noteq> None \<longrightarrow> link c' = link c)) h"
proof (induction xs arbitrary: c h)
  case Nil
  then show ?case by (simp add: wp_return)
next
  case (Cons x xs)
  show ?case
    unfolding run_all.simps wp_rules
    by (rule wp_conseq [OF keeps_link [OF Cons.prems]])
      (auto simp: wp_return split: prod.splits intro!: wp_conseq [OF Cons.IH])
qed

end

definition client_link :: "netlink_client \<Rightarrow> string option" where
  "client_link c = (if registered c then Some (client_channel c) else None)"

definition client_run ::
  "os \<Rightarrow> client_op \<Rightarrow> netlink_client \<Rightarrow> ((Error, bool option) expected option \<times> netlink_client) io" where
  "client_run K x c = (case x of
     SetState n up b \<Rightarrow> do { (r, c) \<leftarrow> set_interface_state K c n up b;
       State_Monad.return (map_option (map_sum id (\<lambda>_. None)) r, c) }
   | Exists n \<Rightarrow> do { (r, c) \<leftarrow> interface_exists K c n;
       State_Monad.return (map_option (map_sum id Some) r, c) }
   | IsUp n \<Rightarrow> do { (r, c) \<leftarrow> interface_is_up K c n;
       State_Monad.return (map_option (map_sum id Some) r, c) }
   | CreateVcan n \<Rightarrow> do { (r, c) \<leftarrow> create_vcan_interface K c n;
       State_Monad.return (map_option (map_sum id (\<lambda>_. None)) r, c) })"

text \<open>What an operation does to the registration and to what was received.\<close>

definition client_step ::
  "netlink_client \<Rightarrow> history \<Rightarrow> (Error, 'a) expected option \<times> netlink_client \<Rightarrow> history \<Rightarrow> bool" where
  "client_step c h x h' \<longleftrightarrow> (client_link c \<noteq> None \<longrightarrow> client_link (snd x) = client_link c)
     \<and> overreads h' = (if fst x = None then 1 else 0) + overreads h"

lemma send_request_step:
  "wp (send_request K c req) (\<lambda>(res, c') h'. (client_link c \<noteq> None \<longrightarrow> client_link c' = client_link c)
     \<and> overreads h' = (case res of None \<Rightarrow> 1 | Some (Inl e) \<Rightarrow> 0
         | Some (Inr resp) \<Rightarrow> if result resp \<noteq> 0 \<and> NUL \<notin> set (error_message resp) then 1 else 0)
       + overreads h) h"
proof (rule wp_conseq [OF wp_conj [OF send_request_client send_request_receives]], clarify)
  fix res c' t
  assume link: "registered c \<longrightarrow> c' = c"
    and read: "case res of
       Some (Inr resp) \<Rightarrow> \<exists>b. answers t = b # answers h \<and> resp = decode_response b
         \<and> overreads t = (if endless_response b then 1 else 0) + overreads h
     | Some (Inl e) \<Rightarrow> answers t = answers h \<and> overreads t = overreads h
     | None \<Rightarrow> answers t = answers h \<and> overreads t = Suc (overreads h)"
  have "client_link c \<noteq> None \<longrightarrow> client_link c' = client_link c"
    using link by (auto simp: client_link_def)
  moreover consider "res = None" | e where "res = Some (Inl e)" | resp where "res = Some (Inr resp)"
    by (metis option.exhaust sum.exhaust)
  then have "overreads t = (case res of None \<Rightarrow> 1 | Some (Inl e) \<Rightarrow> 0
         | Some (Inr resp) \<Rightarrow> if result resp \<noteq> 0 \<and> NUL \<notin> set (error_message resp) then 1 else 0)
       + overreads h"
    using read by cases (auto simp: endless_response_def)
  ultimately show "(client_link c \<noteq> None \<longrightarrow> client_link c' = client_link c)
     \<and> overreads t = (case res of None \<Rightarrow> 1 | Some (Inl e) \<Rightarrow> 0
         | Some (Inr resp) \<Rightarrow> if result resp \<noteq> 0 \<and> NUL \<notin> set (error_message resp) then 1 else 0)
       + overreads h" ..
qed

lemma fallback_reads: "unchanged overreads (fallback_system_call K name up rate)"
  unfolding fallback_system_call_def by (intro keeps_rules unchanged_call; simp)

lemma client_ops_step:
  "wp (set_interface_state K c n up b) (client_step c h) h"
  "wp (interface_exists K c n) (client_step c h) h"
  "wp (interface_is_up K c n) (client_step c h) h"
  "wp (create_vcan_interface K c n) (client_step c h) h"
  unfolding set_interface_state_def interface_exists_def interface_is_up_def
    create_vcan_interface_def client_step_def wp_rules Let_def
  by (rule wp_conseq [OF send_request_step],
      auto simp: wp_rules refusal_None split: option.splits sum.splits
        intro!: wp_conseq [OF keepsD [OF fallback_reads]])+

lemma client_step_map:
  "client_step c h (r, c') h' \<Longrightarrow> client_step c h (map_option f r, c') h'"
  by (simp add: client_step_def)

interpretation client: daemon_link "client_run K" client_link "\<lambda>_. True" "\<lambda>r. r = None" for K
proof unfold_locales
  show "keeps fd_delta (client_run K x c)" for x c
    unfolding client_run_def
    by (cases x) (simp_all, (intro keeps_rules)+)
  have step: "wp (client_run K x c) (client_step c h) h" for x c h
    unfolding client_run_def
    by (cases x) (auto simp: wp_bind wp_case_prod wp_return split: prod.split
        intro!: wp_conseq [OF client_ops_step(1)] wp_conseq [OF client_ops_step(2)]
          wp_conseq [OF client_ops_step(3)] wp_conseq [OF client_ops_step(4)] client_step_map)
  show "wp (client_run K x c) (\<lambda>(r, c') h'. True
      \<and> overreads h' = (if r = None then 1 else 0) + overreads h
      \<and> (client_link c \<noteq> None \<longrightarrow> client_link c' = client_link c)) h" for x c h
    by (rule wp_conseq [OF step]) (auto simp: client_step_def)
qed

subsection \<open>The manager\<close>

record ipc_manager =
  main_channel_name :: string
  ipc_client :: "netlink_client option"
  initialized :: bool

definition mk_ipc_manager :: ipc_manager where
  "mk_ipc_manager =
     \<lparr>main_channel_name = ''HyCAN_Daemon'', ipc_client = None, initialized = False\<rparr>"

definition ensure_initialized :: "ipc_manager \<Rightarrow> (Error, unit) expected \<times> ipc_manager" where
  "ensure_initialized m =
     (if initialized m then (Inr (), m)
      else (Inr (), m\<lparr>ipc_client := Some mk_netlink_client, initialized := True\<rparr>))"

definition ipc_call ::
  "ipc_manager \<Rightarrow> (netlink_client \<Rightarrow> ((Error, 'a) expected option \<times> netlink_client) io)
     \<Rightarrow> ((Error, 'a) expected option \<times> ipc_manager) io" where
  "ipc_call m f = (let (init_result, m) = ensure_initialized m in
     case init_result of
       Inl e \<Rightarrow> State_Monad.return (Some (Inl e), m)
     | Inr _ \<Rightarrow> (case ipc_client m of
           None \<Rightarrow> State_Monad.return (None, m)
         | Some c \<Rightarrow> do {
             (r, c) \<leftarrow> f c;
             State_Monad.return (r, m\<lparr>ipc_client := Some c\<rparr>)
           }))"

definition ipc_set ::
  "os \<Rightarrow> ipc_manager \<Rightarrow> string \<Rightarrow> bool \<Rightarrow> 32 word
     \<Rightarrow> ((Error, unit) expected option \<times> ipc_manager) io" where
  "ipc_set K m name up rate = ipc_call m (\<lambda>c. set_interface_state K c name up rate)"

definition ipc_exists ::
  "os \<Rightarrow> ipc_manager \<Rightarrow> string \<Rightarrow> ((Error, bool) expected option \<times> ipc_manager) io" where
  "ipc_exists K m name = ipc_call m (\<lambda>c. interface_exists K c name)"

definition ipc_is_up ::
  "os \<Rightarrow> ipc_manager \<Rightarrow> string \<Rightarrow> ((Error, bool) expected option \<times> ipc_manager) io" where
  "ipc_is_up K m name = ipc_call m (\<lambda>c. interface_is_up K c name)"

definition ipc_create_vcan ::
  "os \<Rightarrow> ipc_manager \<Rightarrow> string \<Rightarrow> ((Error, unit) expected option \<times> ipc_manager) io" where
  "ipc_create_vcan K m name = ipc_call m (\<lambda>c. create_vcan_interface K c name)"

definition ipc_wf :: "ipc_manager \<Rightarrow> bool" where
  "ipc_wf m \<longleftrightarrow> initialized m = (ipc_client m \<noteq> None)"

lemma ipc_wf_initial: "ipc_wf mk_ipc_manager"
  by (simp add: ipc_wf_def mk_ipc_manager_def)

text \<open>What a call on a well-formed manager does is what its client does.\<close>

lemma wp_ipc_call:
  assumes "ipc_wf m"
    and "\<And>c. client_link c = Option.bind (ipc_client m) client_link
      \<Longrightarrow> wp (f c) (\<lambda>(r, c') h'. Q r (Some c') h') h"
  shows "wp (ipc_call m f) (\<lambda>(r, m') h'. ipc_wf m' \<and> Q r (ipc_client m') h') h"
proof -
  obtain c where c: "ensure_initialized m = (Inr (), m\<lparr>ipc_client := Some c, initialized := True\<rparr>)"
      "client_link c = Option.bind (ipc_client m) client_link"
  proof (cases "ipc_client m")
    case None
    with assms(1) show ?thesis
      by (intro that [of mk_netlink_client])
        (auto simp: ensure_initialized_def ipc_wf_def client_link_def mk_netlink_client_def)
  next
    case (Some c)
    with assms(1) show ?thesis
      by (intro that [of c]) (cases m; auto simp: ensure_initialized_def ipc_wf_def)+
  qed
  then show ?thesis
    unfolding ipc_call_def
    by (auto simp: wp_rules ipc_wf_def intro!: wp_conseq [OF assms(2)])
qed

lemma ipc_call_unchanged [keeps_rules]:
  "(\<And>c. unchanged view (f c)) \<Longrightarrow> unchanged view (ipc_call m f)"
  unfolding ipc_call_def ensure_initialized_def by (auto split: option.split intro!: keeps_rules)

definition ipc_link :: "ipc_manager \<Rightarrow> string option" where
  "ipc_link m = Option.bind (ipc_client m) client_link"

definition ipc_run ::
  "os \<Rightarrow> client_op \<Rightarrow> ipc_manager
     \<Rightarrow> ((Error, bool option) expected option \<times> ipc_manager) io" where
  "ipc_run K x m = (case x of
     SetState n up b \<Rightarrow> do { (r, m) \<leftarrow> ipc_set K m n up b;
       State_Monad.return (map_option (map_sum id (\<lambda>_. None)) r, m) }
   | Exists n \<Rightarrow> do { (r, m) \<leftarrow> ipc_exists K m n;
       State_Monad.return (map_option (map_sum id Some) r, m) }
   | IsUp n \<Rightarrow> do { (r, m) \<leftarrow> ipc_is_up K m n;
       State_Monad.return (map_option (map_sum id Some) r, m) }
   | CreateVcan n \<Rightarrow> do { (r, m) \<leftarrow> ipc_create_vcan K m n;
       State_Monad.return (map_option (map_sum id (\<lambda>_. None)) r, m) })"

text \<open>The manager adds nothing to its client but making it.\<close>

lemma ipc_run_client:
  "ipc_run K x m = ipc_call m (\<lambda>c. client_run K x c)"
  by (cases x)
    (simp_all add: ipc_run_def client_run_def ipc_set_def ipc_exists_def ipc_is_up_def
      ipc_create_vcan_def ipc_call_def ensure_initialized_def State_Monad.bind_def
      State_Monad.return_def split_beta split: option.split)

interpretation ipc: daemon_link "ipc_run K" ipc_link ipc_wf "\<lambda>r. r = None" for K
proof unfold_locales
  show "keeps fd_delta (ipc_run K x m)" for x m
    unfolding ipc_run_client by (intro keeps_rules client.keeps_fds)
  show "wp (ipc_run K x m) (\<lambda>(r, m') h'. ipc_wf m'
      \<and> overreads h' = (if r = None then 1 else 0) + overreads h
      \<and> (ipc_link m \<noteq> None \<longrightarrow> ipc_link m' = ipc_link m)) h" if "ipc_wf m" for x m h
    unfolding ipc_run_client ipc_link_def
    by (rule wp_ipc_call [OF that]) (auto intro!: wp_conseq [OF client.keeps_link])
qed

subsection \<open>Properties\<close>

text \<open>C35: However the operations of a fresh manager are mixed and whatever the environment does, as
  many calls have an undefined result as complete replies were received whose array the client then
  reads past its end: a registration that reports success under a name without a terminator, or a
  response that reports an error in a message without one. Nothing else is undefined (in particular
  the client is never used before it exists), so every call is defined when all such replies are
  built by the daemon's constructors, which terminate their arrays. The descriptors of the process are
  as they were.\<close>

theorem ipc_session_defined:
  "wp (run_all (ipc_run K) xs mk_ipc_manager)
     (\<lambda>(rs, m) h'. length rs = length xs \<and> ipc_wf m
        \<and> overreads h' = length (filter (\<lambda>r. r = None) rs) + overreads h
        \<and> fd_count h' = fd_count h) h
   \<and> \<not> endless_registration (encode_register_response (mk_register_response n name))
   \<and> \<not> endless_response (encode_response (mk_response k msg))
   \<and> \<not> endless_response (encode_response (mk_query_response k e u))"
proof (intro conjI)
  show "wp (run_all (ipc_run K) xs mk_ipc_manager)
     (\<lambda>(rs, m) h'. length rs = length xs \<and> ipc_wf m
        \<and> overreads h' = length (filter (\<lambda>r. r = None) rs) + overreads h
        \<and> fd_count h' = fd_count h) h"
    by (rule wp_conseq [OF wp_conj [OF ipc.run_all_keeps_link [OF ipc_wf_initial]
          keepsD [OF ipc.run_all_keeps_fds]]]) auto
qed (simp_all add: endless_registration_def endless_response_def register_response.dec_enc
    response.dec_enc constructors_terminated)

text \<open>Once a manager is registered with the daemon its channel is fixed: no later sequence of
  operations, successful or not, changes it or registers again.\<close>

theorem ipc_link_permanent:
  assumes "ipc_wf m" and "ipc_link m = Some channel"
  shows "wp (run_all (ipc_run K) xs m) (\<lambda>(rs, m') _. ipc_link m' = Some channel) h"
  by (rule wp_conseq [OF ipc.run_all_keeps_link [OF assms(1)]]) (auto simp: assms(2))

theorem ipc_link_permanent_witness:
  "wp (run_all (ipc_run restarted_daemon_os) [SetState ''can0'' True 500000, Exists ''can0'']
        \<lparr>main_channel_name = ''HyCAN_Daemon'',
          ipc_client = Some \<lparr>client_channel = ''HyCAN_Client_7'', registered = True\<rparr>,
          initialized = True\<rparr>)
     (\<lambda>(rs, m') _. ipc_link m' = Some ''HyCAN_Client_7'') []"
  by (rule ipc_link_permanent) (simp_all add: ipc_wf_def ipc_link_def client_link_def)

end
