(* ===== verification/Can_Socket.thy ===== *)
theory Can_Socket
  imports Messages Error_Types
begin

unbundle bit_operations_syntax

section \<open>CAN sockets\<close>

text \<open>
  \<open>Interface/Socket.hpp\<close> and \<open>.cpp\<close>: the raw CAN socket a dispatcher and a sender each own,
  and the bytes of \<open>struct can_frame\<close> that are read from and written to it. A descriptor of 0,
  the value of a socket never connected, is not closed by a reconnection but is closed by the
  destructor.
\<close>

subsection \<open>Frames as bytes\<close>

definition encode_frame :: "can_frame \<Rightarrow> byte list" where
  "encode_frame f = le32 (can_id f)
     @ [frame_len f, frame_pad f, frame_res0 f, frame_len8_dlc f] @ frame_data f"

definition decode_frame :: "byte list \<Rightarrow> can_frame" where
  "decode_frame bs =
     \<lparr>can_id = of_le32 (take 4 bs), frame_len = bs ! 4, frame_pad = bs ! 5,
      frame_res0 = bs ! 6, frame_len8_dlc = bs ! 7, frame_data = take 8 (drop 8 bs)\<rparr>"

definition sizeof_can_frame :: nat where
  "sizeof_can_frame = 16"

definition zero_frame :: can_frame where
  "zero_frame = \<lparr>can_id = 0, frame_len = 0, frame_pad = 0, frame_res0 = 0,
     frame_len8_dlc = 0, frame_data = replicate 8 0\<rparr>"

definition wf_frame :: "can_frame \<Rightarrow> bool" where
  "wf_frame f \<longleftrightarrow> length (frame_data f) = 8"

interpretation frame: wire_format encode_frame decode_frame wf_frame sizeof_can_frame
proof unfold_locales
  show "length (encode_frame f) = sizeof_can_frame" if "wf_frame f" for f
    using that by (simp add: encode_frame_def sizeof_can_frame_def wf_frame_def)
  show "decode_frame (encode_frame f) = f" if "wf_frame f" for f
    using that
    by (simp add: encode_frame_def decode_frame_def wf_frame_def nth_append)
  show "wf_frame (decode_frame bs)" if "length bs = sizeof_can_frame" for bs
    using that by (simp add: decode_frame_def sizeof_can_frame_def wf_frame_def)
qed

subsection \<open>The object\<close>

record can_socket =
  sock_fd :: int
  sock_interface :: string

definition mk_can_socket :: "string \<Rightarrow> can_socket" where
  "mk_can_socket name = \<lparr>sock_fd = 0, sock_interface = name\<rparr>"

text \<open>The destructor closes whatever descriptor the object holds.\<close>

definition can_destroy :: "os \<Rightarrow> can_socket \<Rightarrow> unit io" where
  "can_destroy K s = do { _ \<leftarrow> sys K (Close (sock_fd s)); State_Monad.return () }"

definition can_move :: "can_socket \<Rightarrow> can_socket \<times> can_socket" where
  "can_move other = (\<lparr>sock_fd = sock_fd other, sock_interface = sock_interface other\<rparr>,
     other\<lparr>sock_fd := -1\<rparr>)"

definition can_move_assign ::
  "os \<Rightarrow> can_socket \<Rightarrow> can_socket \<Rightarrow> (can_socket \<times> can_socket) io" where
  "can_move_assign K this other = do {
     (if sock_fd this > 0
      then do { _ \<leftarrow> sys K (Close (sock_fd this)); State_Monad.return () }
      else State_Monad.return ());
     State_Monad.return
       (this\<lparr>sock_fd := sock_fd other, sock_interface := sock_interface other\<rparr>,
        other\<lparr>sock_fd := -1\<rparr>)
   }"

text \<open>
  The interface name in \<open>ifr_name\<close>: at most fifteen characters are copied and a terminator is
  put after them; the kernel and \<open>format\<close> read it up to the first terminator.
\<close>

definition ifr_name :: "string \<Rightarrow> string" where
  "ifr_name name = cstr_chars (take (IFNAMSIZ - 1) name)"

definition O_NONBLOCK :: int where
  "O_NONBLOCK = 2048"

definition ensure_connected ::
  "os \<Rightarrow> can_socket \<Rightarrow> ((Error, unit) expected \<times> can_socket) io" where
  "ensure_connected K s = do {
     s \<leftarrow> (if sock_fd s > 0
           then do { _ \<leftarrow> sys K (Close (sock_fd s)); State_Monad.return (s\<lparr>sock_fd := -1\<rparr>) }
           else State_Monad.return s);
     r \<leftarrow> sys K SocketCan;
     let s = s\<lparr>sock_fd := rv r\<rparr>;
     if sock_fd s = -1 then
       State_Monad.return (Inl (mk_error CANSocketCreateError
         (''Failed to create CAN socket: '' @ strerror K (eno r))), s)
     else do {
       i \<leftarrow> sys K (IoctlIfindex (sock_fd s) (ifr_name (sock_interface s)));
       if rv i = -1 then do {
         c \<leftarrow> sys K (Close (sock_fd s));
         let s = s\<lparr>sock_fd := -1\<rparr>;
         State_Monad.return (Inl (mk_error CANInterfaceIndexError
           (''Failed to get CAN interface '' @ quote @ ifr_name (sock_interface s) @ quote
              @ '' index: '' @ strerror K (eno c))), s)
       } else do {
         b \<leftarrow> sys K (BindCan (sock_fd s) (outv i));
         if rv b = -1 then do {
           c \<leftarrow> sys K (Close (sock_fd s));
           State_Monad.return (Inl (mk_error CANSocketBindError
             (''Failed to bind CAN socket: '' @ strerror K (eno c))), s\<lparr>sock_fd := -1\<rparr>)
         } else do {
           f \<leftarrow> sys K (FcntlGetFl (sock_fd s));
           _ \<leftarrow> sys K (FcntlSetFl (sock_fd s) (rv f OR O_NONBLOCK));
           State_Monad.return (Inr (), s)
         }
       }
     }
   }"

text \<open>
  \<open>flush\<close> reads until the socket is empty. Its loop ends when the environment stops delivering
  frames; \<open>fuel\<close> bounds the reads and \<open>None\<close> is the loop still running.
\<close>

fun flush_loop :: "os \<Rightarrow> nat \<Rightarrow> int \<Rightarrow> (Error, unit) expected option io" where
  "flush_loop K 0 fd = State_Monad.return None"
| "flush_loop K (Suc fuel) fd = do {
     r \<leftarrow> sys K (Read fd sizeof_can_frame);
     if rv r > 0 then flush_loop K fuel fd
     else if rv r = -1 \<and> (eno r = EAGAIN \<or> eno r = EWOULDBLOCK \<or> eno r = ENETDOWN)
     then State_Monad.return (Some (Inr ()))
     else State_Monad.return (Some (Inl (mk_error CANFlushError
       (''Failed to flush linux buffer: '' @ strerror K (eno r)))))
   }"

definition flush :: "os \<Rightarrow> nat \<Rightarrow> can_socket \<Rightarrow> (Error, unit) expected option io" where
  "flush K fuel s =
     (if sock_fd s < 0 then
        State_Monad.return (Some (Inl (mk_error CANInvalidSocketError
          ''Cannot flush with invalid socket descriptor'')))
      else flush_loop K fuel (sock_fd s))"

lemma mk_can_socket_simps [simp]:
  "sock_fd (mk_can_socket n) = 0" "sock_interface (mk_can_socket n) = n"
  by (simp_all add: mk_can_socket_def)

subsection \<open>Descriptors\<close>

text \<open>The descriptor an object has opened itself: a positive one.\<close>

definition opened :: "int \<Rightarrow> int \<Rightarrow> int" where
  "opened fd x = (if 0 < fd then gain fd x else 0)"

lemma opened_simps [simp]: "opened 0 x = 0" "opened (-1) x = 0"
  by (simp_all add: opened_def)

text \<open>
  The environment as POSIX documents it: a new descriptor is the lowest one free, so it is -1 on
  failure and, while the standard streams are open, positive otherwise.
\<close>

definition streams_open :: "os \<Rightarrow> bool" where
  "streams_open K \<longleftrightarrow> (\<forall>h. let fd = rv (respond K h (Posix SocketCan)) in fd = -1 \<or> 0 < fd)"

lemma streams_open_iff:
  "streams_open K \<Longrightarrow> rv (respond K h (Posix SocketCan)) = -1
     \<longleftrightarrow> \<not> 0 < rv (respond K h (Posix SocketCan))"
  by (auto simp: streams_open_def Let_def dest: spec [of _ h])

lemma streams_open_sample: "streams_open sample_os"
  by (simp add: streams_open_def sample_os_def)

lemma wp_ensure_connected:
  "wp (ensure_connected K s)
     (\<lambda>(r, s') h'. sock_interface s' = sock_interface s
        \<and> has_value r = (sock_fd s' \<noteq> -1)
        \<and> (streams_open K \<longrightarrow> (sock_fd s' = -1 \<or> 0 < sock_fd s')
            \<and> fd_count h' = (\<lambda>x. fd_count h x - opened (sock_fd s) x + opened (sock_fd s') x))
        \<and> (\<forall>e. r = Inl e \<longrightarrow> code e \<in> {CANSocketCreateError, CANInterfaceIndexError,
              CANSocketBindError})) h"
  unfolding ensure_connected_def
  by (auto simp: wp_rules Let_def opened_def fun_eq_iff mk_error_def
      streams_open_iff intro!: wp_call_os)

lemma keeps_flush_loop [keeps_rules]: "keeps fd_delta (flush_loop K fuel fd)"
  by (induction fuel) (auto intro!: keeps_rules)

lemma keeps_flush [keeps_rules]: "keeps fd_delta (flush K fuel s)"
  unfolding flush_def by (intro keeps_rules)

subsection \<open>The interface of a reconnectable socket\<close>

text \<open>
  \<open>balanced hdl m fd\<close>: \<open>m\<close>, run by an object that holds \<open>fd\<close>, gives a result and the object's new
  state, whose descriptor \<open>hdl\<close> reads; what it opened and closed is exactly the difference
  between the two.
\<close>

definition balanced :: "('s \<Rightarrow> int) \<Rightarrow> ('a \<times> 's) io \<Rightarrow> int \<Rightarrow> bool" where
  "balanced hdl m fd \<longleftrightarrow> (\<forall>h. wp m
     (\<lambda>(_, s') h'. fd_count h' = (\<lambda>x. fd_count h x - opened fd x + opened (hdl s') x)) h)"

lemma balanced_return: "hdl s = fd \<Longrightarrow> balanced hdl (State_Monad.return (x, s)) fd"
  by (simp add: balanced_def wp_return)

lemma balanced_keeps:
  assumes "keeps fd_delta m" and "\<And>x. balanced hdl (f x) fd"
  shows "balanced hdl (m \<bind> f) fd"
  unfolding balanced_def wp_rules
proof (rule allI, rule wp_conseq [OF keepsD [OF assms(1)]])
  fix h r t
  assume "fd_count t = fd_count h"
  then show "wp (f r) (\<lambda>(_, s') h'. fd_count h'
      = (\<lambda>x. fd_count h x - opened fd x + opened (hdl s') x)) t"
    using assms(2) [of r, unfolded balanced_def, rule_format, of t] by simp
qed

lemma balanced_bind:
  assumes "balanced g m fd" and "\<And>r s'. balanced hdl (f r s') (g s')"
  shows "balanced hdl (m \<bind> (\<lambda>(r, s'). f r s')) fd"
  unfolding balanced_def wp_rules
  by (rule allI, rule wp_conseq [OF assms(1) [unfolded balanced_def, THEN spec]])
    (auto split: prod.splits
      intro!: wp_conseq [OF assms(2) [unfolded balanced_def, THEN spec]])

lemma balanced_if:
  "(b \<Longrightarrow> balanced hdl m fd) \<Longrightarrow> (\<not> b \<Longrightarrow> balanced hdl n fd) \<Longrightarrow> balanced hdl (if b then m else n) fd"
  by simp

lemma balanced_case_sum:
  "(\<And>e. balanced hdl (f e) fd) \<Longrightarrow> (\<And>y. balanced hdl (g y) fd)
     \<Longrightarrow> balanced hdl (case x of Inl e \<Rightarrow> f e | Inr y \<Rightarrow> g y) fd"
  by (cases x) simp_all

lemma balanced_case_option:
  "balanced hdl n fd \<Longrightarrow> (\<And>y. balanced hdl (g y) fd)
     \<Longrightarrow> balanced hdl (case x of None \<Rightarrow> n | Some y \<Rightarrow> g y) fd"
  by (cases x) simp_all

lemmas balanced_rules = balanced_if balanced_case_sum balanced_case_option

text \<open>
  What the dispatcher and the sender rely on: connecting, again and again, replaces the one
  descriptor the object owns, and a failure leaves it without one.
\<close>

locale reconnectable =
  fixes connect :: "'s \<Rightarrow> ((Error, unit) expected \<times> 's) io"
    and handle :: "'s \<Rightarrow> int"
    and fair :: bool
  assumes connect_balanced: "fair \<Longrightarrow> balanced handle (connect s) (handle s)"
    and connect_result: "fair \<Longrightarrow> wp (connect s) (\<lambda>(r, s') _. has_value r = (0 < handle s')) h"
begin

lemma connect_bind:
  assumes "fair" and "\<And>r s'. balanced hdl (f r s') (handle s')"
  shows "balanced hdl (connect s \<bind> (\<lambda>(r, s'). f r s')) (handle s)"
  by (rule balanced_bind [OF connect_balanced [OF assms(1)] assms(2)])

end

interpretation can_handle: reconnectable "ensure_connected K" sock_fd "streams_open K" for K
  by unfold_locales (auto simp: balanced_def intro!: wp_conseq [OF wp_ensure_connected])

subsection \<open>Draining the socket\<close>

fun reads :: "int \<Rightarrow> history \<Rightarrow> nat" where
  "reads fd [] = 0"
| "reads fd ((c, r) # h) = (case c of
     Posix (Read f n) \<Rightarrow> (if f = fd then Suc (reads fd h) else reads fd h) | _ \<Rightarrow> reads fd h)"

definition drained :: "int \<Rightarrow> history \<Rightarrow> bool" where
  "drained fd h \<longleftrightarrow> (case h of
     (c, r) # _ \<Rightarrow> c = Posix (Read fd sizeof_can_frame) \<and> rv r = -1
        \<and> eno r \<in> {EAGAIN, EWOULDBLOCK, ENETDOWN}
   | [] \<Rightarrow> False)"

lemma drained_Cons [simp]:
  "drained fd ((c, r) # h) \<longleftrightarrow> c = Posix (Read fd sizeof_can_frame) \<and> rv r = -1
     \<and> eno r \<in> {EAGAIN, EWOULDBLOCK, ENETDOWN}"
  by (simp add: drained_def)

lemma flush_loop_returns:
  assumes quiet: "\<And>h'. n + k \<le> reads fd h'
      \<Longrightarrow> rv (respond K h' (Posix (Read fd sizeof_can_frame))) \<le> 0"
    and "n + k < fuel + reads fd t" and "0 < fuel"
  shows "wp (flush_loop K fuel fd)
    (\<lambda>r h'. \<exists>x. r = Some x \<and> (x = Inr () \<longrightarrow> drained fd h')) t"
  using assms(2,3)
proof (induction fuel arbitrary: t)
  case 0
  then show ?case by simp
next
  case (Suc fuel)
  let ?r = "respond K t (Posix (Read fd sizeof_can_frame))"
  have more: "n + k < Suc (fuel + reads fd t) \<and> 0 < fuel" if "0 < rv ?r"
    using quiet [of t] Suc.prems that by (cases "n + k \<le> reads fd t") auto
  show ?case
    by (auto simp: wp_rules more intro!: wp_call_os Suc.IH)
qed

text \<open>Connecting an object again and again.\<close>

fun connect_times :: "os \<Rightarrow> nat \<Rightarrow> can_socket \<Rightarrow> ((Error, unit) expected \<times> can_socket) io" where
  "connect_times K 0 s = ensure_connected K s"
| "connect_times K (Suc n) s = do { (_, s) \<leftarrow> ensure_connected K s; connect_times K n s }"

lemma connect_times_balanced:
  assumes "streams_open K"
  shows "balanced sock_fd (connect_times K n s) (sock_fd s)"
  by (induction n arbitrary: s)
    (auto intro: can_handle.connect_bind can_handle.connect_balanced assms)

lemma connect_times_result:
  assumes "streams_open K"
  shows "wp (connect_times K n s)
    (\<lambda>(r, s') _. has_value r = (0 < sock_fd s') \<and> (sock_fd s' = -1 \<or> 0 < sock_fd s')) h"
proof (induction n arbitrary: s h)
  case 0
  then show ?case
    by (auto simp: assms intro!: wp_conseq [OF wp_ensure_connected])
next
  case (Suc n)
  then show ?case
    by (simp add: wp_bind wp_case_prod wp_any split: prod.split)
qed

subsection \<open>Properties\<close>

text \<open>While the standard streams are open, a socket that is connected any number of times and
  then destroyed leaves the descriptors as they were: every reconnection closes the descriptor
  it replaces, every failure the one it has just opened. The result tells whether the object
  holds a descriptor.\<close>

theorem can_socket_lifetime:
  assumes "streams_open K"
  shows "wp (connect_times K n (mk_can_socket name))
    (\<lambda>(r, s) h'. has_value r = (0 < sock_fd s)
       \<and> wp (can_destroy K s) (\<lambda>_ h''. fd_count h'' = fd_count h) h') h"
  using wp_conj [OF connect_times_result [OF assms, of n "mk_can_socket name"]
      connect_times_balanced [OF assms, of n "mk_can_socket name", unfolded balanced_def,
        rule_format, of h]]
  by (auto simp: can_destroy_def wp_rules opened_def fun_eq_iff elim!: wp_conseq intro!: wp_call_os_any)

theorem can_socket_lifetime_witness:
  "wp (connect_times sample_os 2 (mk_can_socket ''can0''))
    (\<lambda>(r, s) h'. has_value r = (0 < sock_fd s)
       \<and> wp (can_destroy sample_os s) (\<lambda>_ h''. fd_count h'' = fd_count []) h') []"
  by (rule can_socket_lifetime [OF streams_open_sample])

text \<open>A socket that was never connected holds descriptor 0, which it did not open, and its
  destructor closes it.\<close>

theorem unconnected_destructor_closes_stdin:
  "wp (can_destroy K (mk_can_socket name))
     (\<lambda>_ h'. map fst h' = Posix (Close 0) # map fst h \<and> fd_count h' 0 = fd_count h 0 - 1) h"
  by (auto simp: can_destroy_def wp_rules intro!: wp_call_os_any)

text \<open>C29: \<open>flush\<close> ends when the bus does: if at most \<open>n\<close> further reads of the socket deliver a
  frame, \<open>n + 1\<close> reads suffice, and success means that the last read found the socket empty or
  its network down.\<close>

theorem flush_returns:
  assumes "\<And>h'. n + reads (sock_fd s) h \<le> reads (sock_fd s) h'
      \<Longrightarrow> rv (respond K h' (Posix (Read (sock_fd s) sizeof_can_frame))) \<le> 0"
  shows "wp (flush K (Suc n) s)
    (\<lambda>r h'. \<exists>x. r = Some x \<and> (x = Inr () \<longrightarrow> drained (sock_fd s) h')) h"
  using flush_loop_returns [OF assms, where fuel = "Suc n" and t = h]
  by (auto simp: flush_def wp_rules)

text \<open>A socket on which three frames are waiting.\<close>

definition queued_os :: os where
  "queued_os = sample_os\<lparr>respond := (\<lambda>h c. case c of
       Posix (Read fd n) \<Rightarrow>
         (if reads fd h < 3 then plain_reply 16 else (plain_reply (-1))\<lparr>eno := EAGAIN\<rparr>)
     | _ \<Rightarrow> respond sample_os h c)\<rparr>"

theorem flush_returns_witness:
  "wp (flush queued_os 4 \<lparr>sock_fd = 5, sock_interface = ''can0''\<rparr>)
     (\<lambda>r h'. (\<exists>x. r = Some x \<and> (x = Inr () \<longrightarrow> drained 5 h'))) []"
  using flush_returns [of 3 "\<lparr>sock_fd = 5, sock_interface = ''can0''\<rparr>" "[]" queued_os]
  by (simp add: queued_os_def numeral_eq_Suc)

end
