(* ===== verification/Can_Sender.thy ===== *)
theory Can_Sender
  imports Can_Socket
begin

section \<open>Sending frames\<close>

text \<open>
  \<open>Interface/Sender.hpp\<close>: writing a frame to the sender's own socket, with one reconnection and
  one more attempt when the error says that the socket is of no use. \<open>send\<close> is a template over
  the types convertible to \<open>can_frame\<close>; the conversion, which is the user's, is the
  argument \<open>to_frame\<close>, the identity for \<open>can_frame\<close> itself.
\<close>

subsection \<open>The object and its operation\<close>

record can_sender =
  sender_socket :: can_socket
  sender_interface :: string

definition mk_can_sender :: "string \<Rightarrow> can_sender" where
  "mk_can_sender name = \<lparr>sender_socket = mk_can_socket name, sender_interface = name\<rparr>"

definition is_fatal :: "int \<Rightarrow> bool" where
  "is_fatal err \<longleftrightarrow> err = EBADF \<or> err = ENETDOWN \<or> err = EPIPE \<or> err = ENXIO \<or> err = ENODEV"

definition write_error :: "os \<Rightarrow> int \<Rightarrow> Error" where
  "write_error K err =
     (if err = EAGAIN \<or> err = EWOULDBLOCK \<or> err = ENOBUFS
      then mk_error CANSocketBufferFull ''CAN socket buffer full''
      else mk_error CANSocketWriteError
        (''Failed to send CAN message: '' @ strerror K err @ '' (errno: '' @ dec_int err @ '')''))"

text \<open>The part of \<open>send\<close> after the first check, with the socket it left.\<close>

definition send_connected ::
  "os \<Rightarrow> can_frame \<Rightarrow> can_sender \<Rightarrow> can_socket \<Rightarrow> ((Error, unit) expected \<times> can_sender) io" where
  "send_connected K cf s sock = do {
     w \<leftarrow> sys K (Write (sock_fd sock) (encode_frame cf));
     if rv w \<noteq> -1 then State_Monad.return (Inr (), s\<lparr>sender_socket := sock\<rparr>)
     else if is_fatal (eno w) then do {
       (reconnected, sock) \<leftarrow> ensure_connected K sock;
       case reconnected of
         Inr _ \<Rightarrow> do {
           w \<leftarrow> sys K (Write (sock_fd sock) (encode_frame cf));
           State_Monad.return (if rv w \<noteq> -1 then Inr () else Inl (write_error K (eno w)),
             s\<lparr>sender_socket := sock\<rparr>)
         }
       | Inl e \<Rightarrow> State_Monad.return (Inl e, s\<lparr>sender_socket := sock\<rparr>)
     } else State_Monad.return (Inl (write_error K (eno w)), s\<lparr>sender_socket := sock\<rparr>)
   }"

definition can_send ::
  "os \<Rightarrow> ('t \<Rightarrow> can_frame) \<Rightarrow> can_sender \<Rightarrow> 't
     \<Rightarrow> ((Error, unit) expected \<times> can_sender) io" where
  "can_send K to_frame s frame =
     (if sock_fd (sender_socket s) \<le> 0 then do {
        (res, sock) \<leftarrow> ensure_connected K (sender_socket s);
        case res of
          Inl e \<Rightarrow> State_Monad.return (Inl e, s\<lparr>sender_socket := sock\<rparr>)
        | Inr _ \<Rightarrow> send_connected K (to_frame frame) s sock
      } else send_connected K (to_frame frame) s (sender_socket s))"

definition sender_destroy :: "os \<Rightarrow> can_sender \<Rightarrow> unit io" where
  "sender_destroy K s = can_destroy K (sender_socket s)"

text \<open>Sending a list of frames, as an application does.\<close>

fun send_frames ::
  "os \<Rightarrow> can_frame list \<Rightarrow> can_sender \<Rightarrow> ((Error, unit) expected list \<times> can_sender) io" where
  "send_frames K [] s = State_Monad.return ([], s)"
| "send_frames K (f # fs) s = do {
     (r, s) \<leftarrow> can_send K id s f;
     (rs, s) \<leftarrow> send_frames K fs s;
     State_Monad.return (r # rs, s)
   }"

subsection \<open>What reaches the bus\<close>

text \<open>
  The writes of a history, newest first: the bytes, and the error with which the kernel refused
  them, if it did.
\<close>

fun written :: "history \<Rightarrow> (byte list \<times> int option) list" where
  "written [] = []"
| "written ((c, r) # h) = (case c of
     Posix (Write fd b) \<Rightarrow> (b, if rv r \<noteq> -1 then None else Some (eno r)) # written h
   | _ \<Rightarrow> written h)"

definition sent :: "history \<Rightarrow> byte list list" where
  "sent h = map fst (filter (\<lambda>w. snd w = None) (written h))"

text \<open>
  Everything a call of \<open>send\<close> did to reach the bus, newest first: the index found for an interface on
  a new socket, that socket bound to an index, the step of a connection that failed, with its error
  code, and a write to a descriptor.
\<close>

datatype sending =
    Found int string int
  | Bound int int
  | Failed ErrorCode
  | Wrote int "byte list" "int option"

fun sendings :: "history \<Rightarrow> sending list" where
  "sendings [] = []"
| "sendings ((c, r) # h) = (case c of
     Posix SocketCan \<Rightarrow> (if rv r = -1 then [Failed CANSocketCreateError] else [])
   | Posix (IoctlIfindex fd n) \<Rightarrow>
       [if rv r = -1 then Failed CANInterfaceIndexError else Found fd n (outv r)]
   | Posix (BindCan fd i) \<Rightarrow> [if rv r = -1 then Failed CANSocketBindError else Bound fd i]
   | Posix (Write fd b) \<Rightarrow> [Wrote fd b (if rv r \<noteq> -1 then None else Some (eno r))]
   | _ \<Rightarrow> []) @ sendings h"

text \<open>
  The contract of \<open>send\<close>, over what it did, oldest first. A connection to an interface ends with a
  descriptor bound to the index found for this interface, or with the code of the step that failed.
  A write is final unless it is refused for a fatal reason; then a connection is made, and when there
  is one the same bytes are written once more, to the descriptor of the new connection. An object
  without a descriptor connects first.
\<close>

inductive connection :: "string \<Rightarrow> sending list \<Rightarrow> (ErrorCode, int) expected \<Rightarrow> bool" for n where
  bound: "connection n [Found fd n i, Bound fd i] (Inr fd)"
| no_socket: "connection n [Failed CANSocketCreateError] (Inl CANSocketCreateError)"
| no_index: "connection n [Failed CANInterfaceIndexError] (Inl CANInterfaceIndexError)"
| not_bound: "connection n [Found fd n i, Failed CANSocketBindError] (Inl CANSocketBindError)"

definition write_result :: "os \<Rightarrow> int option \<Rightarrow> (Error, unit) expected" where
  "write_result K w = (case w of None \<Rightarrow> Inr () | Some err \<Rightarrow> Inl (write_error K err))"

inductive writes ::
  "os \<Rightarrow> string \<Rightarrow> byte list \<Rightarrow> int \<Rightarrow> sending list \<Rightarrow> (Error, unit) expected \<Rightarrow> bool"
  for K n b fd where
  taken: "writes K n b fd [Wrote fd b None] (Inr ())"
| refused: "\<not> is_fatal err \<Longrightarrow> writes K n b fd [Wrote fd b (Some err)] (Inl (write_error K err))"
| unreachable: "is_fatal err \<Longrightarrow> connection n es (Inl (code e))
    \<Longrightarrow> writes K n b fd (Wrote fd b (Some err) # es) (Inl e)"
| once_more: "is_fatal err \<Longrightarrow> connection n es (Inr fd')
    \<Longrightarrow> writes K n b fd (Wrote fd b (Some err) # es @ [Wrote fd' b w]) (write_result K w)"

inductive send_spec ::
  "os \<Rightarrow> string \<Rightarrow> byte list \<Rightarrow> int \<Rightarrow> sending list \<Rightarrow> (Error, unit) expected \<Rightarrow> bool"
  for K n b fd where
  connected: "0 < fd \<Longrightarrow> writes K n b fd es r \<Longrightarrow> send_spec K n b fd es r"
| first_fails: "fd \<le> 0 \<Longrightarrow> connection n es (Inl (code e)) \<Longrightarrow> send_spec K n b fd es (Inl e)"
| first: "fd \<le> 0 \<Longrightarrow> connection n es (Inr fd') \<Longrightarrow> writes K n b fd' es' r
    \<Longrightarrow> send_spec K n b fd (es @ es') r"

lemma wp_connection:
  "wp (ensure_connected K s) (\<lambda>(r, s') h'. sock_interface s' = sock_interface s
     \<and> (\<exists>es. sendings h' = rev es @ sendings h \<and> connection (ifr_name (sock_interface s)) es
          (case r of Inl e \<Rightarrow> Inl (code e) | Inr _ \<Rightarrow> Inr (sock_fd s')))) h"
  unfolding ensure_connected_def
  by (auto simp: wp_rules Let_def logged mk_error_def connection.simps intro!: wp_call_os_any)

lemma wp_send_connected:
  "wp (send_connected K cf s sock) (\<lambda>(r, s') h'. \<exists>es. sendings h' = rev es @ sendings h
     \<and> writes K (ifr_name (sock_interface sock)) (encode_frame cf) (sock_fd sock) es r) h"
    (is "wp _ ?Q h")
proof -
  let ?n = "ifr_name (sock_interface sock)" and ?b = "encode_frame cf" and ?fd = "sock_fd sock"
  let ?rest = "\<lambda>(res :: (Error, unit) expected, sock'). case res of
     Inr _ \<Rightarrow> do {
       w \<leftarrow> sys K (Write (sock_fd sock') ?b);
       State_Monad.return (if rv w \<noteq> -1 then Inr () else Inl (write_error K (eno w)),
         s\<lparr>sender_socket := sock'\<rparr>)
     }
   | Inl e \<Rightarrow> State_Monad.return (Inl e, s\<lparr>sender_socket := sock'\<rparr>)"
  have retry: "wp (?rest (res, sock')) ?Q t"
    if "sendings t = rev (Wrote ?fd ?b (Some err) # es) @ sendings h" and "is_fatal err"
      and "connection ?n es (case res of Inl e \<Rightarrow> Inl (code e) | Inr _ \<Rightarrow> Inr (sock_fd sock'))"
    for err es res sock' t
  proof (cases res)
    case (Inl e)
    with that show ?thesis
      by (auto simp: wp_rules intro!: exI [of _ "Wrote ?fd ?b (Some err) # es"] writes.unreachable)
  next
    case (Inr u)
    let ?es = "\<lambda>w. Wrote ?fd ?b (Some err) # es @ [Wrote (sock_fd sock') ?b w]"
    have again: "writes K ?n ?b ?fd (?es w) (write_result K w)" for w
      by (rule writes.once_more) (use that Inr in simp_all)
    have "?Q (if rv w \<noteq> -1 then Inr () else Inl (write_error K (eno w)), s\<lparr>sender_socket := sock'\<rparr>)
        ((Posix (Write (sock_fd sock') ?b), w) # t)" for w
      using again [of "if rv w \<noteq> -1 then None else Some (eno w)"] that(1)
      by (auto simp: write_result_def split: if_splits
          intro!: exI [of _ "?es (if rv w \<noteq> -1 then None else Some (eno w))"])
    with Inr show ?thesis
      by (auto simp: wp_rules intro!: wp_call_os_any)
  qed
  have fatal: "wp (ensure_connected K sock) (\<lambda>x. wp (?rest x) ?Q) ((Posix (Write ?fd ?b), w) # h)"
    if "rv w = -1" and "is_fatal (eno w)" for w
    using retry [of _ "eno w"] that
    by (intro wp_conseq [OF wp_connection]) (auto simp: wp_bind)
  show ?thesis
    unfolding send_connected_def wp_bind
    by (rule wp_call_os_any)
      (use fatal in \<open>auto simp: wp_return wp_bind logged writes.taken writes.refused\<close>)
qed

lemma wp_can_send:
  "wp (can_send K to_frame s f) (\<lambda>(r, s') h'. \<exists>es. sendings h' = rev es @ sendings h
     \<and> send_spec K (ifr_name (sock_interface (sender_socket s))) (encode_frame (to_frame f))
         (sock_fd (sender_socket s)) es r) h"
    (is "wp _ ?Q h")
proof (cases "sock_fd (sender_socket s) \<le> 0")
  case False
  then show ?thesis
    unfolding can_send_def
    by (auto intro!: wp_conseq [OF wp_send_connected] send_spec.connected)
next
  case True
  have "wp (case res of Inl e \<Rightarrow> State_Monad.return (Inl e, s\<lparr>sender_socket := sock\<rparr>)
      | Inr _ \<Rightarrow> send_connected K (to_frame f) s sock) ?Q t"
    if "sock_interface sock = sock_interface (sender_socket s)" and "sendings t = rev es @ sendings h"
      and "connection (ifr_name (sock_interface (sender_socket s))) es
        (case res of Inl e \<Rightarrow> Inl (code e) | Inr _ \<Rightarrow> Inr (sock_fd sock))"
    for res :: "(Error, unit) expected" and sock t es
  proof (cases res)
    case (Inl e)
    with that True show ?thesis
      by (auto simp: wp_rules intro!: exI [of _ es] send_spec.first_fails)
  next
    case (Inr u)
    have "?Q (r, s') h'" if "\<exists>es'. sendings h' = rev es' @ sendings t
        \<and> writes K (ifr_name (sock_interface sock)) (encode_frame (to_frame f)) (sock_fd sock) es' r"
      for r s' h'
    proof -
      from that obtain es' where "sendings h' = rev es' @ sendings t"
          "writes K (ifr_name (sock_interface sock)) (encode_frame (to_frame f)) (sock_fd sock) es' r"
        by blast
      then show ?thesis
        using \<open>sendings t = _\<close> \<open>connection _ _ _\<close> \<open>sock_interface sock = _\<close> True Inr
        by (auto intro!: exI [of _ "es @ es'"] send_spec.first)
    qed
    then show ?thesis
      using Inr by (auto intro!: wp_conseq [OF wp_send_connected])
  qed
  with True show ?thesis
    unfolding can_send_def
    by (auto simp: wp_rules intro!: wp_conseq [OF wp_connection])
qed

text \<open>So the bus gets the frame once or not at all.\<close>

fun taken_by_bus :: "sending list \<Rightarrow> byte list list" where
  "taken_by_bus [] = []"
| "taken_by_bus (Wrote fd b None # es) = b # taken_by_bus es"
| "taken_by_bus (_ # es) = taken_by_bus es"

lemma taken_by_bus_append: "taken_by_bus (es @ es') = taken_by_bus es @ taken_by_bus es'"
  by (induction es rule: taken_by_bus.induct) auto

lemma sent_sendings: "sent h = taken_by_bus (sendings h)"
proof (induction h rule: sendings.induct)
  case (2 c r h)
  then show ?case
    by (auto simp: sent_def taken_by_bus_append split: call.split posix_call.split)
qed (simp add: sent_def)

lemma connection_taken: "connection n es x \<Longrightarrow> taken_by_bus (rev es) = []"
  by (erule connection.cases) simp_all

lemma writes_taken: "writes K n b fd es r \<Longrightarrow> taken_by_bus (rev es) = (if has_value r then [b] else [])"
  by (erule writes.cases)
    (auto simp: taken_by_bus_append write_result_def dest: connection_taken split: option.splits)

lemma send_spec_taken:
  "send_spec K n b fd es r \<Longrightarrow> taken_by_bus (rev es) = (if has_value r then [b] else [])"
  by (erule send_spec.cases) (simp_all add: taken_by_bus_append connection_taken writes_taken)

lemma wp_can_send_sent:
  "wp (can_send K to_frame s f)
     (\<lambda>(r, s') h'. sent h' = (if has_value r then [encode_frame (to_frame f)] else []) @ sent h) h"
  by (rule wp_conseq [OF wp_can_send])
    (auto simp: sent_sendings taken_by_bus_append dest: send_spec_taken)

subsection \<open>Descriptors\<close>

abbreviation sender_fd :: "can_sender \<Rightarrow> int" where
  "sender_fd s \<equiv> sock_fd (sender_socket s)"

lemma can_send_balanced:
  assumes "streams_open K"
  shows "balanced sender_fd (can_send K to_frame s f) (sender_fd s)"
proof -
  have put: "keeps fd_delta (sys K (Write fd b))" for fd b
    by (intro keeps_rules) simp
  have rest: "balanced sender_fd (send_connected K cf s sock) (sock_fd sock)" for cf sock
    unfolding send_connected_def
    by (intro balanced_rules balanced_keeps [OF put] can_handle.connect_bind [OF assms]
        balanced_return) simp_all
  show ?thesis
    unfolding can_send_def
    by (intro balanced_rules rest can_handle.connect_bind [OF assms] balanced_return) simp_all
qed

text \<open>After a call the object holds a descriptor of its own, or none.\<close>

definition own_fd :: "int \<Rightarrow> bool" where
  "own_fd fd \<longleftrightarrow> fd = -1 \<or> 0 < fd"

lemma wp_connect_own:
  "streams_open K \<Longrightarrow> wp (ensure_connected K s) (\<lambda>(r, s') _. own_fd (sock_fd s')) h"
  by (auto simp: own_fd_def intro!: wp_conseq [OF wp_ensure_connected])

lemma wp_can_send_own:
  assumes "streams_open K"
  shows "wp (can_send K to_frame s f) (\<lambda>(r, s') _. own_fd (sender_fd s')) h"
  unfolding can_send_def send_connected_def
  by (auto simp: wp_rules own_fd_def [of "sender_fd s"] split: prod.splits sum.splits
      intro!: wp_call_os_any wp_conseq [OF wp_connect_own [OF assms]])

lemma send_frames_balanced:
  assumes "streams_open K"
  shows "balanced sender_fd (send_frames K fs s) (sender_fd s)"
proof (induction fs arbitrary: s)
  case Nil
  then show ?case by (auto intro: balanced_return)
next
  case (Cons f fs)
  show ?case
    unfolding send_frames.simps
    by (intro balanced_bind [OF can_send_balanced [OF assms]] balanced_bind [OF Cons.IH]
        balanced_return) simp
qed

lemma send_frames_own:
  assumes "streams_open K"
  shows "own_fd (sender_fd s) \<or> fs \<noteq> []
    \<Longrightarrow> wp (send_frames K fs s) (\<lambda>(rs, s') _. own_fd (sender_fd s')) h"
proof (induction fs arbitrary: s h)
  case Nil
  then show ?case by (simp add: wp_return)
next
  case (Cons f fs)
  show ?case
    unfolding send_frames.simps wp_rules
    by (rule wp_conseq [OF wp_can_send_own [OF assms]])
      (auto simp: wp_rules split: prod.splits intro!: wp_conseq [OF Cons.IH])
qed

subsection \<open>Properties\<close>

text \<open>C20: \<open>send\<close> meets its contract on every path. An object without a descriptor first connects a new
  socket to the sender's interface. It makes at most two attempts to write, both with exactly the
  bytes of the converted frame, the first to the descriptor it holds; the second only after the first
  was refused because the socket is of no use, and then only to the descriptor of a socket that was
  newly bound, in between, to the index of the sender's interface. The result is success if and only
  if the last attempt was taken by the kernel, and otherwise the error of the last step that failed,
  with the steps of a connection, a full buffer and other refusals told apart.\<close>

theorem can_send_contract:
  "wp (can_send K to_frame s f) (\<lambda>(r, s') h'. \<exists>es. sendings h' = rev es @ sendings h
     \<and> send_spec K (ifr_name (sock_interface (sender_socket s))) (encode_frame (to_frame f))
         (sock_fd (sender_socket s)) es r) h"
  by (rule wp_can_send)

text \<open>Of a list of frames, the bus gets exactly those whose \<open>send\<close> succeeded, each once and in
  the order they were sent; nothing is sent twice by a retry and nothing is reordered.\<close>

theorem send_frames_in_order:
  "wp (send_frames K fs s)
     (\<lambda>(rs, s') h'. length rs = length fs
        \<and> sent h' = rev (map (encode_frame \<circ> fst) (filter (has_value \<circ> snd) (zip fs rs))) @ sent h) h"
proof (induction fs arbitrary: s h)
  case Nil
  then show ?case by (simp add: wp_return)
next
  case (Cons f fs)
  show ?case
    unfolding send_frames.simps wp_rules
    by (rule wp_conseq [OF wp_can_send_sent])
      (auto simp: wp_rules split: prod.splits intro!: wp_conseq [OF Cons.IH])
qed

text \<open>While the standard streams are open, a sender that sends at least one frame and is then
  destroyed leaves the descriptors as they were, however many reconnections were needed and
  whatever failed.\<close>

theorem sender_lifetime:
  assumes "streams_open K" and "fs \<noteq> []"
  shows "wp (send_frames K fs (mk_can_sender name))
    (\<lambda>(rs, s) h'. wp (sender_destroy K s) (\<lambda>_ h''. fd_count h'' = fd_count h) h') h"
  using wp_conj [OF send_frames_own [OF assms(1), of "mk_can_sender name" fs h]
      send_frames_balanced [OF assms(1), of fs "mk_can_sender name", unfolded balanced_def,
        THEN spec, of h]] assms(2)
  by (auto simp: sender_destroy_def can_destroy_def mk_can_sender_def wp_rules own_fd_def
      opened_def fun_eq_iff elim!: wp_conseq intro!: wp_call_os_any)

text \<open>An environment in which every other write finds the interface down.\<close>

definition flaky_os :: os where
  "flaky_os = sample_os\<lparr>respond := (\<lambda>h c. case c of
       Posix (Write fd b) \<Rightarrow> (if even (length (written h))
         then (plain_reply (-1))\<lparr>eno := ENETDOWN\<rparr> else plain_reply (int (length b)))
     | _ \<Rightarrow> respond sample_os h c)\<rparr>"

theorem sender_lifetime_witness:
  "wp (send_frames flaky_os [zero_frame, zero_frame] (mk_can_sender ''can0''))
    (\<lambda>(rs, s) h'. wp (sender_destroy flaky_os s) (\<lambda>_ h''. fd_count h'' = fd_count []) h') []"
  by (rule sender_lifetime) (simp_all add: streams_open_def flaky_os_def sample_os_def)

end
