(* ===== verification/Spin_Lock.thy ===== *)
theory Spin_Lock
  imports HyCAN_Prelude
begin

section \<open>The spin lock\<close>

text \<open>
  \<open>Util/SpinLock.hpp\<close>: the lock that guards a dispatcher's table of callbacks. Every access to
  the atomic flag is one step; threads interleave in any order. The memory is sequentially
  consistent: what the acquire and release orderings add for the guarded data is not modelled.
\<close>

subsection \<open>Threads and steps\<close>

text \<open>
  Where a thread is: outside; before the exchange or in the inner loop of \<open>lock\<close>; before the load
  or the exchange of \<open>try_lock\<close>; or past a successful acquisition.
\<close>

datatype spin_pc = Outside | LockExchange | LockSpin | TryLoad | TryExchange | Holding

record lock_state =
  locked :: bool
  pc :: "nat \<Rightarrow> spin_pc"

definition mk_spin_lock :: lock_state where
  "mk_spin_lock = \<lparr>locked = False, pc = (\<lambda>_. Outside)\<rparr>"

text \<open>One access of a thread inside \<open>lock\<close> or \<open>try_lock\<close>: where it goes, and the flag after it.\<close>

fun lock_access :: "spin_pc \<Rightarrow> bool \<Rightarrow> spin_pc \<times> bool" where
  "lock_access LockExchange flag = (if \<not> flag then Holding else LockSpin, True)"
| "lock_access LockSpin flag = (if flag then LockSpin else LockExchange, flag)"
| "lock_access TryLoad flag = (if \<not> flag then TryExchange else Outside, flag)"
| "lock_access TryExchange flag = (if \<not> flag then Holding else Outside, True)"
| "lock_access p flag = (p, flag)"

definition at_pc :: "nat \<Rightarrow> spin_pc \<times> bool \<Rightarrow> lock_state \<Rightarrow> lock_state" where
  "at_pc t x s = s\<lparr>locked := snd x, pc := (pc s)(t := fst x)\<rparr>"

lemma at_pc_simps [simp]:
  "locked (at_pc t x s) = snd x"
  "pc (at_pc t x s) u = (if u = t then fst x else pc s u)"
  by (simp_all add: at_pc_def)

definition unlock :: "nat \<Rightarrow> lock_state \<Rightarrow> lock_state" where
  "unlock t s = at_pc t (Outside, False) s"

inductive spin_step :: "nat \<Rightarrow> lock_state \<Rightarrow> lock_state \<Rightarrow> bool" where
  call_lock: "pc s t = Outside \<Longrightarrow> spin_step t s (at_pc t (LockExchange, locked s) s)"
| call_try_lock: "pc s t = Outside \<Longrightarrow> spin_step t s (at_pc t (TryLoad, locked s) s)"
| access: "pc s t \<noteq> Outside \<Longrightarrow> pc s t \<noteq> Holding
    \<Longrightarrow> spin_step t s (at_pc t (lock_access (pc s t) (locked s)) s)"
| release: "pc s t = Holding \<Longrightarrow> spin_step t s (unlock t s)"

code_pred (modes: i \<Rightarrow> i \<Rightarrow> o \<Rightarrow> bool) spin_step .

text \<open>The same with clients that may return from a critical section without unlocking.\<close>

inductive leaky_step :: "nat \<Rightarrow> lock_state \<Rightarrow> lock_state \<Rightarrow> bool" where
  proper: "spin_step t s s' \<Longrightarrow> leaky_step t s s'"
| leak: "pc s t = Holding \<Longrightarrow> leaky_step t s (at_pc t (Outside, locked s) s)"

inductive_cases spin_stepE: "spin_step t s s'"
inductive_cases leaky_stepE: "leaky_step t s s'"

inductive reaches :: "(nat \<Rightarrow> lock_state \<Rightarrow> lock_state \<Rightarrow> bool) \<Rightarrow> lock_state \<Rightarrow> lock_state \<Rightarrow> bool"
  for step where
  here: "reaches step s s"
| there: "reaches step s s' \<Longrightarrow> step t s' s'' \<Longrightarrow> reaches step s s''"

lemma lock_access_cases:
  "p \<noteq> Outside \<Longrightarrow> p \<noteq> Holding \<Longrightarrow> lock_access p flag = (q, flag')
     \<Longrightarrow> (q = Holding \<and> \<not> flag \<and> flag') \<or> (q \<noteq> Holding \<and> flag' = flag)"
  by (cases p; cases flag) auto

subsection \<open>Invariants\<close>

text \<open>Whoever holds the lock holds it alone, and the flag is set.\<close>

definition exclusive :: "lock_state \<Rightarrow> bool" where
  "exclusive s \<longleftrightarrow> (\<forall>t. pc s t = Holding \<longrightarrow> locked s \<and> (\<forall>u. pc s u = Holding \<longrightarrow> u = t))"

text \<open>The flag is set only by a thread that holds the lock.\<close>

definition owned_flag :: "lock_state \<Rightarrow> bool" where
  "owned_flag s \<longleftrightarrow> (locked s \<longrightarrow> (\<exists>t. pc s t = Holding))"

text \<open>The flag is set and nobody holds the lock.\<close>

definition orphaned :: "lock_state \<Rightarrow> bool" where
  "orphaned s \<longleftrightarrow> locked s \<and> (\<forall>t. pc s t \<noteq> Holding)"

lemmas spin_inv_defs = exclusive_def owned_flag_def orphaned_def unlock_def

lemma access_exclusive:
  assumes "exclusive s" and "pc s t \<noteq> Outside" and "pc s t \<noteq> Holding"
  shows "exclusive (at_pc t (lock_access (pc s t) (locked s)) s)"
  using assms lock_access_cases [OF assms(2,3), of "locked s"]
  by (cases "lock_access (pc s t) (locked s)") (auto simp: exclusive_def)

lemma spin_step_exclusive: "spin_step t s s' \<Longrightarrow> exclusive s \<Longrightarrow> exclusive s'"
  by (erule spin_stepE) (auto simp: access_exclusive, auto simp: spin_inv_defs)

lemma leaky_step_exclusive: "leaky_step t s s' \<Longrightarrow> exclusive s \<Longrightarrow> exclusive s'"
  by (erule leaky_stepE) (auto simp: spin_step_exclusive, auto simp: spin_inv_defs)

lemma other_holder:
  "pc s u = Holding \<Longrightarrow> pc s t = Outside \<Longrightarrow> \<exists>v. v \<noteq> t \<and> (v \<noteq> t \<longrightarrow> pc s v = Holding)"
  by (rule exI [of _ u]) auto

lemma spin_step_owned: "spin_step t s s' \<Longrightarrow> owned_flag s \<Longrightarrow> owned_flag s'"
proof (erule spin_stepE)
  assume s: "owned_flag s" and s': "s' = at_pc t (lock_access (pc s t) (locked s)) s"
    and p: "pc s t \<noteq> Outside" "pc s t \<noteq> Holding"
  show "owned_flag s'"
    using s p lock_access_cases [OF p, of "locked s"] unfolding s'
    by (cases "lock_access (pc s t) (locked s)") (auto simp: owned_flag_def)
qed (auto simp: spin_inv_defs dest: other_holder)

lemma leaky_step_orphaned: "leaky_step t s s' \<Longrightarrow> orphaned s \<Longrightarrow> orphaned s'"
proof (erule leaky_stepE, erule spin_stepE)
  assume s: "orphaned s" and s': "s' = at_pc t (lock_access (pc s t) (locked s)) s"
    and p: "pc s t \<noteq> Outside" "pc s t \<noteq> Holding"
  show "orphaned s'"
    using s p lock_access_cases [OF p, of "locked s"] unfolding s'
    by (cases "lock_access (pc s t) (locked s)") (auto simp: orphaned_def)
qed (auto simp: spin_inv_defs)

lemma reaches_invariant:
  assumes "reaches step s s'" and "P s"
    and "\<And>t u v. step t u v \<Longrightarrow> P u \<Longrightarrow> P v"
  shows "P s'"
  using assms by (induction rule: reaches.induct) auto

lemma initial_invariants: "exclusive mk_spin_lock" "owned_flag mk_spin_lock"
  by (simp_all add: spin_inv_defs mk_spin_lock_def)

lemma reachable_exclusive: "reaches leaky_step mk_spin_lock s \<Longrightarrow> exclusive s"
  by (erule reaches_invariant) (simp_all add: initial_invariants leaky_step_exclusive)

lemma reachable_owned: "reaches spin_step mk_spin_lock s \<Longrightarrow> owned_flag s"
  by (erule reaches_invariant) (simp_all add: initial_invariants spin_step_owned)

lemma reachable_orphaned: "reaches leaky_step s s' \<Longrightarrow> orphaned s \<Longrightarrow> orphaned s'"
  by (erule reaches_invariant) (simp_all add: leaky_step_orphaned)

subsection \<open>The interface of a mutual-exclusion lock\<close>

text \<open>
  What the table of callbacks relies on: at most one thread holds the lock. Data that is changed
  only by a thread that holds the lock is then changed by nobody else while a thread holds it.
\<close>

locale mutex =
  fixes step :: "nat \<Rightarrow> lock_state \<Rightarrow> lock_state \<Rightarrow> bool"
    and init :: lock_state
    and holds :: "nat \<Rightarrow> lock_state \<Rightarrow> bool"
  assumes exclusion: "reaches step init s \<Longrightarrow> holds t s \<Longrightarrow> holds u s \<Longrightarrow> t = u"
    and keeps_hold: "reaches step init s \<Longrightarrow> holds t s \<Longrightarrow> step u s s' \<Longrightarrow> u \<noteq> t \<Longrightarrow> holds t s'"
begin

lemma isolation:
  assumes "reaches step init s" and "holds t s"
    and "step u s s'" and "u \<noteq> t" and "d' = d \<or> holds u s"
  shows "d' = d \<and> holds t s'"
  using assms exclusion keeps_hold by blast

end

abbreviation holds_lock :: "nat \<Rightarrow> lock_state \<Rightarrow> bool" where
  "holds_lock t s \<equiv> pc s t = Holding"

lemma leaky_step_other: "leaky_step u s s' \<Longrightarrow> u \<noteq> t \<Longrightarrow> pc s' t = pc s t"
  by (auto elim!: leaky_stepE spin_stepE simp: unlock_def)

interpretation spin: mutex leaky_step mk_spin_lock holds_lock
proof unfold_locales
  fix s t u s'
  assume r: "reaches leaky_step mk_spin_lock s" and h: "holds_lock t s"
  show "holds_lock u s \<Longrightarrow> t = u"
    using h reachable_exclusive [OF r] by (auto simp: exclusive_def)
  show "leaky_step u s s' \<Longrightarrow> u \<noteq> t \<Longrightarrow> holds_lock t s'"
    using h leaky_step_other by simp
qed

subsection \<open>A thread on its own\<close>

text \<open>A thread inside \<open>lock\<close> that takes \<open>n\<close> steps while the others pause.\<close>

fun alone :: "nat \<Rightarrow> nat \<Rightarrow> lock_state \<Rightarrow> lock_state" where
  "alone 0 t s = s"
| "alone (Suc n) t s = alone n t (at_pc t (lock_access (pc s t) (locked s)) s)"

text \<open>A first thread calls \<open>lock\<close> and gets it.\<close>

definition calling :: "nat \<Rightarrow> lock_state" where
  "calling t = at_pc t (LockExchange, False) mk_spin_lock"

lemma reaches_calling: "reaches spin_step mk_spin_lock (calling t)"
proof (rule there)
  show "reaches spin_step mk_spin_lock mk_spin_lock" by (rule here)
  show "spin_step t mk_spin_lock (calling t)"
    using call_lock [of mk_spin_lock t] by (simp add: calling_def mk_spin_lock_def)
qed

lemma calling_holds: "pc (alone 1 t (calling t)) t = Holding"
  by (simp add: calling_def)

lemma reaches_holding: "reaches leaky_step mk_spin_lock (alone 1 t (calling t))"
proof (rule there)
  show "reaches leaky_step mk_spin_lock (calling t)"
    using reaches_calling by (induction rule: reaches.induct) (auto intro: reaches.intros proper)
  show "leaky_step t (calling t) (alone 1 t (calling t))"
    using proper [OF access [of "calling t" t]] by (simp add: calling_def)
qed

subsection \<open>Properties\<close>

text \<open>C21: At most one thread is past \<open>lock\<close> or a successful \<open>try_lock\<close>, and the flag is set while
  one is, in every state that any interleaving of any number of threads reaches, even if some of
  them return without unlocking.\<close>

theorem mutual_exclusion:
  assumes "reaches leaky_step mk_spin_lock s" and "pc s t = Holding"
  shows "locked s \<and> (\<forall>u. pc s u = Holding \<longrightarrow> u = t)"
  using reachable_exclusive [OF assms(1)] assms(2) by (auto simp: exclusive_def)

theorem mutual_exclusion_witness:
  "let s = alone 1 7 (calling 7) in locked s \<and> (\<forall>u. pc s u = Holding \<longrightarrow> u = 7)"
  unfolding Let_def by (rule mutual_exclusion [OF reaches_holding calling_holds])

text \<open>The lock is released by its holders only and is not lost: while every thread unlocks
  what it locked, a set flag has a holder; and a thread inside \<open>lock\<close> that finds the flag clear
  and is not overtaken holds the lock after at most two accesses.\<close>

theorem lock_available:
  assumes "reaches spin_step mk_spin_lock s" and "\<And>t. pc s t \<noteq> Holding"
    and "pc s t = LockExchange \<or> pc s t = LockSpin"
  shows "\<not> locked s \<and> (pc (alone 1 t s) t = Holding \<or> pc (alone 2 t s) t = Holding)"
proof -
  from reachable_owned [OF assms(1)] assms(2) have "\<not> locked s"
    by (auto simp: owned_flag_def)
  with assms(3) show ?thesis
    by (auto simp: numeral_2_eq_2)
qed

theorem lock_available_witness:
  "let s = calling 3 in
     \<not> locked s \<and> (pc (alone 1 3 s) 3 = Holding \<or> pc (alone 2 3 s) 3 = Holding)"
  using lock_available [OF reaches_calling, of 3 3] by (simp add: calling_def mk_spin_lock_def)

text \<open>A holder that returns without unlocking locks everyone out for good: from the state it
  leaves, no interleaving ever lets a thread (itself included) acquire the lock again.\<close>

theorem leaked_lock_is_lost:
  assumes "reaches leaky_step mk_spin_lock s" and "pc s t = Holding"
    and "reaches leaky_step (at_pc t (Outside, locked s) s) s'"
  shows "locked s' \<and> pc s' u \<noteq> Holding"
proof -
  have "orphaned (at_pc t (Outside, locked s) s)"
    using reachable_exclusive [OF assms(1)] assms(2) by (auto simp: exclusive_def orphaned_def)
  from reachable_orphaned [OF assms(3) this] show ?thesis
    by (simp add: orphaned_def)
qed

theorem leaked_lock_is_lost_witness:
  "let s = alone 1 7 (calling 7); s' = at_pc 7 (Outside, locked s) s
   in locked s' \<and> pc s' 8 \<noteq> Holding"
  unfolding Let_def by (rule leaked_lock_is_lost [OF reaches_holding calling_holds here])

end
