(* ===== verification/Frame_Dispatcher.thy ===== *)
theory Frame_Dispatcher
  imports Can_Socket
begin

unbundle bit_operations_syntax

section \<open>Receiving frames\<close>

text \<open>
  \<open>Interface/Dispatcher.hpp\<close> and \<open>.cpp\<close>: the object that waits for frames on an interface in a
  thread of its own and calls the function registered for their identifier. What a callback does
  is the user's; calling it is an event. A callback is named by a number, which stands for the
  \<open>std::function\<close> with the conversion \<open>register_func\<close> wraps around the user's function.

  The operations of the owner and an iteration of the thread are separate definitions; the lock
  that orders them is \<open>Spin_Lock\<close>'s. An operation that finds the flag set by someone who will
  never clear it does not return.
\<close>

subsection \<open>The object\<close>

definition max_std_can_id :: nat where
  "max_std_can_id = 2048"

definition MAX_EPOLL_EVENT :: nat where
  "MAX_EPOLL_EVENT = 2048"

record dispatcher =
  can_sock :: can_socket
  thread_event_fd :: int
  epoll_fd :: int
  cpu_core :: byte
  funcs :: "nat option list"
  disp_interface :: string
  joinable :: bool
  lock_flag :: bool
  latency_test :: bool
  accumulated_latency_ns :: "64 word"
  latency_message_count :: "64 word"

text \<open>
  The members before the body of the constructor runs; \<open>latency_test\<close> is the build option
  \<open>HYCAN_LATENCY_TEST\<close>.
\<close>

definition fresh_dispatcher :: "bool \<Rightarrow> string \<Rightarrow> dispatcher" where
  "fresh_dispatcher latency name =
     \<lparr>can_sock = mk_can_socket name, thread_event_fd = -1, epoll_fd = -1, cpu_core = 0,
      funcs = replicate max_std_can_id None, disp_interface = name, joinable = False,
      lock_flag = False, latency_test = latency, accumulated_latency_ns = 0,
      latency_message_count = 0\<rparr>"

definition epoll_fd_add_sock_fd ::
  "os \<Rightarrow> dispatcher \<Rightarrow> int \<Rightarrow> (Error, unit) expected io" where
  "epoll_fd_add_sock_fd K d fd = do {
     r \<leftarrow> sys K (EpollAdd (epoll_fd d) fd);
     State_Monad.return (if rv r = -1
       then Inl (mk_error EpollError
         (''Failed to EPOLL_CTL_ADD thread_event_fd: '' @ strerror K (eno r)))
       else Inr ())
   }"

text \<open>
  The constructor: the message of the exception it throws, or the object. An exception destroys
  the members already made, of which only the socket's destructor does anything; the object's
  own destructor does not run.
\<close>

definition mk_dispatcher ::
  "os \<Rightarrow> bool \<Rightarrow> string \<Rightarrow> byte option \<Rightarrow> (string, dispatcher) expected io" where
  "mk_dispatcher K latency name cpu_core_opt = do {
     let d = fresh_dispatcher latency name;
     e \<leftarrow> sys K (EpollCreate 256);
     let d = d\<lparr>epoll_fd := rv e\<rparr>;
     if epoll_fd d = -1 then do {
       _ \<leftarrow> can_destroy K (can_sock d);
       State_Monad.return (Inl (''Failed to create epoll file descriptor: '' @ strerror K (eno e)))
     } else do {
       t \<leftarrow> sys K Eventfd;
       let d = d\<lparr>thread_event_fd := rv t\<rparr>;
       if thread_event_fd d = -1 then do {
         _ \<leftarrow> can_destroy K (can_sock d);
         State_Monad.return (Inl (''Failed to create thread_event_fd file descriptor: ''
           @ strerror K (eno t)))
       } else do {
         added \<leftarrow> epoll_fd_add_sock_fd K d (thread_event_fd d);
         case added of
           Inl err \<Rightarrow> do {
             _ \<leftarrow> can_destroy K (can_sock d);
             State_Monad.return (Inl (message err))
           }
         | Inr _ \<Rightarrow> (case cpu_core_opt of
               Some cpu \<Rightarrow> State_Monad.return (Inr (d\<lparr>cpu_core := cpu\<rparr>))
             | None \<Rightarrow> do {
                 c \<leftarrow> thr K ThreadCounterFetchAdd;
                 n \<leftarrow> thr K GetNprocs;
                 State_Monad.return (Inr (d\<lparr>cpu_core := word_of_int (rv c mod rv n)\<rparr>))
               })
       }
     }
   }"

definition reap_thread_name :: string where
  "reap_thread_name = ''reap''"

definition stop :: "os \<Rightarrow> dispatcher \<Rightarrow> ((Error, unit) expected \<times> dispatcher) io" where
  "stop K d =
     (if joinable d then do {
        _ \<leftarrow> thr K (ThreadRequestStop reap_thread_name);
        w \<leftarrow> sys K (Write (thread_event_fd d) [1, 0, 0, 0, 0, 0, 0, 0]);
        if rv w = -1 then
          State_Monad.return (Inl (mk_error ReaperStopError
            (''Failed to write one bytes to the specified socket: '' @ strerror K (eno w))), d)
        else do {
          _ \<leftarrow> thr K (ThreadJoin reap_thread_name);
          State_Monad.return (Inr (), d\<lparr>joinable := False\<rparr>)
        }
      } else State_Monad.return (Inr (), d))"

text \<open>
  The destructor, and then the members': the thread's, which stops and joins it if \<open>stop\<close> did
  not, and the socket's.
\<close>

definition dispatcher_destroy :: "os \<Rightarrow> dispatcher \<Rightarrow> unit io" where
  "dispatcher_destroy K d = do {
     (_, d) \<leftarrow> stop K d;
     (if epoll_fd d \<noteq> -1
      then do { _ \<leftarrow> sys K (Close (epoll_fd d)); State_Monad.return () }
      else State_Monad.return ());
     (if thread_event_fd d \<noteq> -1
      then do { _ \<leftarrow> sys K (Close (thread_event_fd d)); State_Monad.return () }
      else State_Monad.return ());
     (if joinable d
      then do {
        _ \<leftarrow> thr K (ThreadRequestStop reap_thread_name);
        _ \<leftarrow> thr K (ThreadJoin reap_thread_name);
        State_Monad.return ()
      } else State_Monad.return ());
     can_destroy K (can_sock d)
   }"

text \<open>
  \<open>fuel\<close> bounds the reads of \<open>flush\<close>. \<open>None\<close> is a \<open>start\<close> that does not return: a flush still
  running, or a thread that could not be started, for the exception cannot leave \<open>start\<close>, which is
  \<open>noexcept\<close>, and ends the process.
\<close>

definition start ::
  "os \<Rightarrow> nat \<Rightarrow> dispatcher \<Rightarrow> ((Error, unit) expected option \<times> dispatcher) io" where
  "start K fuel d = do {
     (connected, sock) \<leftarrow> ensure_connected K (can_sock d);
     let d = d\<lparr>can_sock := sock\<rparr>;
     case connected of
       Inl e \<Rightarrow> State_Monad.return (Some (Inl e), d)
     | Inr _ \<Rightarrow> do {
         added \<leftarrow> epoll_fd_add_sock_fd K d (sock_fd (can_sock d));
         case added of
           Inl e \<Rightarrow> State_Monad.return (Some (Inl e), d)
         | Inr _ \<Rightarrow> do {
             flushed \<leftarrow> flush K fuel (can_sock d);
             case flushed of
               None \<Rightarrow> State_Monad.return (None, d)
             | Some (Inl e) \<Rightarrow> State_Monad.return (Some (Inl e), d)
             | Some (Inr _) \<Rightarrow>
                 (if \<not> joinable d then do {
                    t \<leftarrow> thr K (ThreadStart reap_thread_name);
                    if rv t = 0 then State_Monad.return (Some (Inr ()), d\<lparr>joinable := True\<rparr>)
                    else State_Monad.return (None, d)
                  } else State_Monad.return (Some (Inr ()), d))
           }
       }
   }"

subsection \<open>Registering callbacks\<close>

text \<open>
  The loop over the identifiers, a \<open>std::set\<close>, so ascending: it stops at the first that is too
  large, which it returns, with the table as it is then.
\<close>

fun register_loop :: "nat list \<Rightarrow> nat \<Rightarrow> nat option list \<Rightarrow> nat option \<times> nat option list" where
  "register_loop [] cb fs = (None, fs)"
| "register_loop (i # ids) cb fs =
     (if max_std_can_id \<le> i then (Some i, fs) else register_loop ids cb (fs[i := Some cb]))"

text \<open>\<open>None\<close>: \<open>lock\<close> does not return.\<close>

definition register_func ::
  "dispatcher \<Rightarrow> nat set \<Rightarrow> nat \<Rightarrow> ((Error, unit) expected \<times> dispatcher) option" where
  "register_func d can_ids cb =
     (if lock_flag d then None
      else let d = d\<lparr>lock_flag := True\<rparr>;
               (bad, fs) = register_loop (sorted_list_of_set can_ids) cb (funcs d);
               d = d\<lparr>funcs := fs\<rparr>
           in Some (case bad of
                Some i \<Rightarrow> (Inl (mk_error FuncCANIdSetError
                  (''CAN ID '' @ dec_nat i @ '' exceeds maximum limit of 2047'')), d)
              | None \<Rightarrow> (Inr (), d\<lparr>lock_flag := False\<rparr>)))"

subsection \<open>The thread\<close>

text \<open>
  How an iteration, or the thread, ends. \<open>Undefined\<close> is an access outside the table,
  \<open>Blocked\<close> a \<open>lock\<close> that does not return, \<open>Thrown\<close> an exception that leaves the thread (and
  ends the process), \<open>Running\<close> a loop that has used up its fuel.
\<close>

datatype reap_result = Continue | Returned | Thrown string | Undefined | Blocked | Running

definition lock_memory :: "os \<Rightarrow> (Error, unit) expected io" where
  "lock_memory K = do {
     r \<leftarrow> thr K MlockAll;
     State_Monad.return (if rv r \<noteq> 0
       then Inl (mk_error MemoryLockError (''Failed to lock memory: '' @ strerror K (eno r)))
       else Inr ())
   }"

definition make_real_time :: "os \<Rightarrow> (Error, unit) expected io" where
  "make_real_time K = do {
     r \<leftarrow> thr K (SetSchedFifo 80);
     State_Monad.return (if rv r \<noteq> 0
       then Inl (mk_error ThreadRealTimeError
         (''Failed to make thread real time: '' @ strerror K (eno r)))
       else Inr ())
   }"

definition affinize_cpu :: "os \<Rightarrow> byte \<Rightarrow> (Error, unit) expected io" where
  "affinize_cpu K cpu = do {
     r \<leftarrow> thr K (SetAffinity cpu);
     State_Monad.return (if rv r \<noteq> 0
       then Inl (mk_error CPUAffinityError
         (''Failed to set cpu affinity: '' @ strerror K (eno r)))
       else Inr ())
   }"

text \<open>The 64-bit time stamp in the data of a frame.\<close>

definition of_le64 :: "byte list \<Rightarrow> 64 word" where
  "of_le64 bs = ucast (of_le32 (take 4 bs)) OR push_bit 32 (ucast (of_le32 (take 4 (drop 4 bs))))"

definition record_latency :: "os \<Rightarrow> dispatcher \<Rightarrow> can_frame \<Rightarrow> dispatcher io" where
  "record_latency K d f =
     (if \<not> latency_test d then State_Monad.return d
      else do {
        now \<leftarrow> thr K HighResolutionClock;
        let latency = (word_of_int (rv now) :: 64 word) - of_le64 (frame_data f);
        State_Monad.return
          (if frame_len f = 8 \<and> sint latency \<ge> 0
           then d\<lparr>accumulated_latency_ns := accumulated_latency_ns d + latency,
                  latency_message_count := latency_message_count d + 1\<rparr>
           else d)
      })"

definition dispatch :: "os \<Rightarrow> dispatcher \<Rightarrow> can_frame \<Rightarrow> (reap_result \<times> dispatcher) io" where
  "dispatch K d f =
     (if lock_flag d then State_Monad.return (Blocked, d)
      else if max_std_can_id \<le> unat (can_id f) then State_Monad.return (Undefined, d)
      else case funcs d ! unat (can_id f) of
          None \<Rightarrow> State_Monad.return (Continue, d)
        | Some cb \<Rightarrow> do {
            _ \<leftarrow> thr K (Callback cb f);
            State_Monad.return (Continue, d)
          })"

definition handle_event ::
  "os \<Rightarrow> dispatcher \<Rightarrow> int \<times> int \<Rightarrow> (reap_result \<times> dispatcher) io" where
  "handle_event K d ev = (case ev of (fd, events) \<Rightarrow> do {
     stopping \<leftarrow> (if fd = thread_event_fd d
       then do { r \<leftarrow> thr K StopRequested; State_Monad.return (rv r \<noteq> 0) }
       else State_Monad.return False);
     if stopping then State_Monad.return (Returned, d)
     else if events AND EPOLLIN \<noteq> 0 then do {
       r \<leftarrow> sys K (Read fd sizeof_can_frame);
       if rv r > 0 then do {
         let f = decode_frame (overwrite (encode_frame zero_frame) (buf r));
         d \<leftarrow> record_latency K d f;
         dispatch K d f
       } else State_Monad.return (Continue, d)
     } else State_Monad.return (Continue, d)
   })"

fun handle_events ::
  "os \<Rightarrow> dispatcher \<Rightarrow> (int \<times> int) list \<Rightarrow> (reap_result \<times> dispatcher) io" where
  "handle_events K d [] = State_Monad.return (Continue, d)"
| "handle_events K d (ev # rest) = do {
     (r, d) \<leftarrow> handle_event K d ev;
     if r = Continue then handle_events K d rest else State_Monad.return (r, d)
   }"

text \<open>One turn of the loop; the array of events keeps what earlier turns left in it.\<close>

definition reap_turn ::
  "os \<Rightarrow> dispatcher \<Rightarrow> (int \<times> int) list \<Rightarrow> (reap_result \<times> dispatcher \<times> (int \<times> int) list) io" where
  "reap_turn K d events = do {
     w \<leftarrow> sys K (EpollWait (epoll_fd d) MAX_EPOLL_EVENT);
     let events = overwrite events (evs w);
     if rv w = -1 then do {
       s \<leftarrow> thr K StopRequested;
       if eno w = EAGAIN \<or> eno w = EWOULDBLOCK \<or> eno w = EINTR then
         (if rv s \<noteq> 0 then State_Monad.return (Returned, d, events)
          else do {
            _ \<leftarrow> thr K (ThreadSleep 1);
            State_Monad.return (Continue, d, events)
          })
       else State_Monad.return
         (if rv s = 0 then Thrown (''Failed to epoll_wait: '' @ strerror K (eno w)) else Returned,
          d, events)
     } else if rv w = 0 then State_Monad.return (Continue, d, events)
     else do {
       (r, d) \<leftarrow> handle_events K d (take (nat (rv w)) events);
       State_Monad.return (r, d, events)
     }
   }"

fun reap_loop ::
  "os \<Rightarrow> nat \<Rightarrow> dispatcher \<Rightarrow> (int \<times> int) list \<Rightarrow> (reap_result \<times> dispatcher) io" where
  "reap_loop K 0 d events = State_Monad.return (Running, d)"
| "reap_loop K (Suc fuel) d events = do {
     (r, d, events) \<leftarrow> reap_turn K d events;
     if r = Continue then reap_loop K fuel d events else State_Monad.return (r, d)
   }"

definition reap_process :: "os \<Rightarrow> nat \<Rightarrow> dispatcher \<Rightarrow> (reap_result \<times> dispatcher) io" where
  "reap_process K fuel d = do {
     _ \<leftarrow> make_real_time K;
     _ \<leftarrow> affinize_cpu K (cpu_core d);
     e \<leftarrow> thr K Geteuid;
     (if rv e = 0 then do { _ \<leftarrow> lock_memory K; State_Monad.return () }
      else State_Monad.return ());
     reap_loop K fuel d (replicate MAX_EPOLL_EVENT (0, 0))
   }"

subsection \<open>The table of callbacks\<close>

text \<open>
  The abstract view of the table: a partial map from identifiers to callbacks, whose laws are
  all that registering and dispatching rely on.
\<close>

locale callback_table =
  fixes lookup :: "'f \<Rightarrow> nat \<Rightarrow> 'c option"
    and insert_cb :: "nat \<Rightarrow> 'c \<Rightarrow> 'f \<Rightarrow> 'f"
    and wf :: "'f \<Rightarrow> bool"
    and bound :: nat
  assumes wf_insert: "wf f \<Longrightarrow> i < bound \<Longrightarrow> wf (insert_cb i c f)"
    and lookup_insert: "wf f \<Longrightarrow> i < bound
      \<Longrightarrow> lookup (insert_cb i c f) j = (if j = i then Some c else lookup f j)"
begin

lemma lookup_inserts:
  "wf f \<Longrightarrow> \<forall>i \<in> set ids. i < bound
     \<Longrightarrow> wf (fold (\<lambda>i. insert_cb i c) ids f)
       \<and> lookup (fold (\<lambda>i. insert_cb i c) ids f) j
           = (if j \<in> set ids then Some c else lookup f j)"
  by (induction ids arbitrary: f) (auto simp: lookup_insert wf_insert)

end

definition callback_for :: "nat option list \<Rightarrow> nat \<Rightarrow> nat option" where
  "callback_for fs i = (if i < length fs then fs ! i else None)"

interpretation table: callback_table callback_for "\<lambda>i c fs. fs[i := Some c]"
    "\<lambda>fs. length fs = max_std_can_id" max_std_can_id
  by unfold_locales (auto simp: callback_for_def)

lemma register_loop_good:
  "\<forall>i \<in> set ids. i < max_std_can_id
     \<Longrightarrow> register_loop ids cb fs = (None, fold (\<lambda>i fs. fs[i := Some cb]) ids fs)"
  by (induction ids arbitrary: fs) auto

lemma register_loop_bad:
  "\<forall>i \<in> set ids. i < max_std_can_id \<Longrightarrow> max_std_can_id \<le> b
     \<Longrightarrow> register_loop (ids @ b # rest) cb fs = (Some b, fold (\<lambda>i fs. fs[i := Some cb]) ids fs)"
  by (induction ids arbitrary: fs) auto

definition dispatcher_wf :: "dispatcher \<Rightarrow> bool" where
  "dispatcher_wf d \<longleftrightarrow> length (funcs d) = max_std_can_id"

lemma dispatcher_wf_fresh: "dispatcher_wf (fresh_dispatcher l n)"
  by (simp add: dispatcher_wf_def fresh_dispatcher_def)

text \<open>An ascending list of identifiers splits at the first that is too large.\<close>

lemma sorted_list_split:
  assumes "finite ids"
  shows "sorted_list_of_set ids = sorted_list_of_set {i \<in> ids. i < n}
      @ sorted_list_of_set {i \<in> ids. \<not> i < n}"
proof (rule sorted_distinct_set_unique)
  show "sorted (sorted_list_of_set {i \<in> ids. i < n} @ sorted_list_of_set {i \<in> ids. \<not> i < n})"
    using assms by (auto simp: sorted_append)
qed (use assms in auto)

lemma register_loop_cut:
  assumes "\<forall>i \<in> set xs. i < max_std_can_id" and "\<forall>i \<in> set ys. max_std_can_id \<le> i"
  shows "register_loop (xs @ ys) cb fs
    = (if ys = [] then None else Some (hd ys), fold (\<lambda>i fs. fs[i := Some cb]) xs fs)"
  using assms by (cases ys) (auto simp: register_loop_good register_loop_bad)

lemma register_func_eq:
  assumes "dispatcher_wf d" and "\<not> lock_flag d" and "finite ids"
  shows "\<exists>fs. length fs = max_std_can_id
      \<and> callback_for fs = (\<lambda>i. if i \<in> ids \<and> i < max_std_can_id then Some cb
           else callback_for (funcs d) i)
      \<and> (if ids \<subseteq> {..<max_std_can_id}
         then register_func d ids cb = Some (Inr (), d\<lparr>funcs := fs\<rparr>)
         else \<exists>e. register_func d ids cb = Some (Inl e, d\<lparr>funcs := fs, lock_flag := True\<rparr>)
           \<and> code e = FuncCANIdSetError)"
proof -
  let ?low = "sorted_list_of_set {i \<in> ids. i < max_std_can_id}"
  let ?high = "sorted_list_of_set {i \<in> ids. \<not> i < max_std_can_id}"
  let ?fs = "fold (\<lambda>i fs. fs[i := Some cb]) ?low (funcs d)"
  have low: "\<forall>i \<in> set ?low. i < max_std_can_id" and set_low: "set ?low = {i \<in> ids. i < max_std_can_id}"
    using assms(3) by auto
  have high: "\<forall>i \<in> set ?high. max_std_can_id \<le> i"
    using assms(3) by auto
  have fs: "length ?fs = max_std_can_id"
    "callback_for ?fs j = (if j \<in> ids \<and> j < max_std_can_id then Some cb
       else callback_for (funcs d) j)" for j
    using table.lookup_inserts [OF assms(1) [unfolded dispatcher_wf_def] low, of cb j] set_low
    by (simp_all add: conj_commute)
  have loop: "register_loop (sorted_list_of_set ids) cb (funcs d)
      = (if ?high = [] then None else Some (hd ?high), ?fs)"
    using register_loop_cut [OF low high, of cb "funcs d"]
      sorted_list_split [OF assms(3), of max_std_can_id] by simp
  have none: "?high = [] \<longleftrightarrow> ids \<subseteq> {..<max_std_can_id}"
    using assms(3) by (auto simp: sorted_list_of_set_eq_Nil_iff)
  show ?thesis
  proof (intro exI [of _ ?fs] conjI)
    show "if ids \<subseteq> {..<max_std_can_id}
         then register_func d ids cb = Some (Inr (), d\<lparr>funcs := ?fs\<rparr>)
         else \<exists>e. register_func d ids cb = Some (Inl e, d\<lparr>funcs := ?fs, lock_flag := True\<rparr>)
           \<and> code e = FuncCANIdSetError"
      using assms(2) loop none by (auto simp: register_func_def mk_error_def Let_def)
  qed (use fs in auto)
qed

subsection \<open>What the thread does\<close>

text \<open>The callbacks a history called, newest first, with their frames.\<close>

fun delivered :: "history \<Rightarrow> (nat \<times> can_frame) list" where
  "delivered [] = []"
| "delivered ((c, r) # h) = (case c of
     Thr (Callback cb f) \<Rightarrow> (cb, f) # delivered h | _ \<Rightarrow> delivered h)"

text \<open>The callbacks a frame is due to.\<close>

definition due :: "dispatcher \<Rightarrow> can_frame \<Rightarrow> (nat \<times> can_frame) list" where
  "due d f = (case callback_for (funcs d) (unat (can_id f)) of None \<Rightarrow> [] | Some cb \<Rightarrow> [(cb, f)])"

text \<open>What the thread may change of the object: the latency counters.\<close>

definition same_table :: "dispatcher \<Rightarrow> dispatcher \<Rightarrow> bool" where
  "same_table d d' \<longleftrightarrow> funcs d' = funcs d \<and> lock_flag d' = lock_flag d \<and> can_sock d' = can_sock d
     \<and> thread_event_fd d' = thread_event_fd d \<and> epoll_fd d' = epoll_fd d
     \<and> joinable d' = joinable d \<and> latency_test d' = latency_test d"

lemma same_table_refl [simp]: "same_table d d"
  by (simp add: same_table_def)

lemma same_table_trans: "same_table d e \<Longrightarrow> same_table e f \<Longrightarrow> same_table d f"
  by (simp add: same_table_def)

lemma same_table_due: "same_table d d' \<Longrightarrow> due d' = due d"
  by (simp add: same_table_def due_def fun_eq_iff)

lemma same_table_keeps:
  "same_table d d' \<Longrightarrow> dispatcher_wf d' = dispatcher_wf d \<and> lock_flag d' = lock_flag d"
  by (simp add: same_table_def dispatcher_wf_def)

lemma wp_record_latency:
  "wp (record_latency K d f) (\<lambda>d' h'. same_table d d' \<and> delivered h' = delivered h) h"
  unfolding record_latency_def
  by (auto simp: wp_rules Let_def same_table_def intro!: wp_call_os_any)

lemma wp_dispatch:
  assumes "dispatcher_wf d"
  shows "wp (dispatch K d f) (\<lambda>(r, d') h'. d' = d
     \<and> r = (if lock_flag d then Blocked
            else if max_std_can_id \<le> unat (can_id f) then Undefined else Continue)
     \<and> delivered h' = (if r = Continue then due d f else []) @ delivered h) h"
  using assms unfolding dispatch_def
  by (auto simp: wp_rules due_def callback_for_def dispatcher_wf_def split: option.splits
      intro!: wp_call_os_any)

text \<open>What a read of 16 bytes that stored \<open>bs\<close> makes of a zeroed frame.\<close>

abbreviation read_frame :: "byte list \<Rightarrow> can_frame" where
  "read_frame bs \<equiv> decode_frame (overwrite (encode_frame zero_frame) bs)"

lemma read_frame_full: "wf_frame f \<Longrightarrow> read_frame (encode_frame f) = f"
proof -
  assume f: "wf_frame f"
  have "wf_frame zero_frame"
    by (simp add: wf_frame_def zero_frame_def)
  with f have "overwrite (encode_frame zero_frame) (encode_frame f) = encode_frame f"
    by (intro overwrite_full) (simp only: frame.enc_length)
  then show ?thesis
    using f by (simp add: frame.dec_enc)
qed

text \<open>The frames a history read, newest first.\<close>

fun frames_read :: "history \<Rightarrow> can_frame list" where
  "frames_read [] = []"
| "frames_read ((c, r) # h) = (case c of
     Posix (Read fd n) \<Rightarrow> (if rv r > 0 then read_frame (buf r) # frames_read h else frames_read h)
   | _ \<Rightarrow> frames_read h)"

lemma frames_read_unchanged:
  "unchanged frames_read (record_latency K d f)" "unchanged frames_read (dispatch K d f)"
  unfolding record_latency_def dispatch_def
  by (intro keeps_rules unchanged_call; simp)+

text \<open>
  The contract of a stretch of the thread's work: what was delivered is what was due for the
  frames read, in the order they were read; only an identifier outside the table stops it.
\<close>

definition served :: "dispatcher \<Rightarrow> history \<Rightarrow> reap_result \<Rightarrow> dispatcher \<Rightarrow> history \<Rightarrow> bool" where
  "served d h r d' h' \<longleftrightarrow> same_table d d' \<and> r \<noteq> Blocked
     \<and> (\<exists>fs. frames_read h' = fs @ frames_read h
          \<and> delivered h' = concat (map (due d) fs) @ delivered h
          \<and> (if r = Undefined then fs \<noteq> [] \<and> max_std_can_id \<le> unat (can_id (hd fs))
             else \<forall>f \<in> set fs. unat (can_id f) < max_std_can_id))"

lemma served_still:
  "frames_read h' = frames_read h \<Longrightarrow> delivered h' = delivered h
     \<Longrightarrow> r \<noteq> Blocked \<Longrightarrow> r \<noteq> Undefined \<Longrightarrow> served d h r d h'"
  by (auto simp: served_def)

lemma served_trans:
  assumes "served d h Continue d' h'" and "served d' h' r d'' h''"
  shows "served d h r d'' h''"
proof -
  from assms(1) obtain fs where 1: "same_table d d'" "frames_read h' = fs @ frames_read h"
      "delivered h' = concat (map (due d) fs) @ delivered h"
      "\<forall>f \<in> set fs. unat (can_id f) < max_std_can_id"
    by (auto simp: served_def)
  from assms(2) obtain gs where 2: "same_table d' d''" "r \<noteq> Blocked"
      "frames_read h'' = gs @ frames_read h'"
      "delivered h'' = concat (map (due d') gs) @ delivered h'"
      "if r = Undefined then gs \<noteq> [] \<and> max_std_can_id \<le> unat (can_id (hd gs))
       else \<forall>f \<in> set gs. unat (can_id f) < max_std_can_id"
    by (auto simp: served_def)
  show ?thesis
    unfolding served_def
    using 1 2 same_table_trans [OF 1(1) 2(1)] same_table_due [OF 1(1)]
    by (intro conjI exI [of _ "gs @ fs"]) (auto split: if_splits)
qed

lemma wp_serve_frame:
  assumes "dispatcher_wf d" and "\<not> lock_flag d"
  shows "wp (do { d \<leftarrow> record_latency K d f; dispatch K d f })
    (\<lambda>(r, d') h'. same_table d d' \<and> delivered h' = due d f @ delivered h
       \<and> frames_read h' = frames_read h
       \<and> r = (if max_std_can_id \<le> unat (can_id f) then Undefined else Continue)) h"
  unfolding wp_rules
proof (rule wp_conseq [OF wp_conj [OF wp_record_latency keepsD [OF frames_read_unchanged(1)]]])
  fix d' t
  assume "(same_table d d' \<and> delivered t = delivered h) \<and> frames_read t = frames_read h"
  then have d': "same_table d d'" "dispatcher_wf d'" "\<not> lock_flag d'" "due d' = due d"
      and t: "delivered t = delivered h" "frames_read t = frames_read h"
    using assms same_table_keeps same_table_due by auto
  have none: "max_std_can_id \<le> unat (can_id f) \<Longrightarrow> due d f = []"
    using assms(1) by (simp add: due_def callback_for_def dispatcher_wf_def)
  show "wp (dispatch K d' f) (\<lambda>(r, d') h'. same_table d d' \<and> delivered h' = due d f @ delivered h
       \<and> frames_read h' = frames_read h
       \<and> r = (if max_std_can_id \<le> unat (can_id f) then Undefined else Continue)) t"
    by (rule wp_conseq [OF wp_conj [OF wp_dispatch [OF d'(2)] keepsD [OF frames_read_unchanged(2)]]])
      (use d' t none in auto)
qed

lemma wp_handle_event:
  assumes "dispatcher_wf d" and "\<not> lock_flag d"
  shows "wp (handle_event K d ev) (\<lambda>(r, d') h'. served d h r d' h') h"
proof -
  have one: "wp (do { d \<leftarrow> record_latency K d f; dispatch K d f })
      (\<lambda>(r, d') h'. served d h r d' h') t"
    if "frames_read t = f # frames_read h" "delivered t = delivered h" for f t
    by (rule wp_conseq [OF wp_serve_frame [OF assms]])
      (use that in \<open>auto simp: served_def split: if_splits\<close>)
  show ?thesis
    unfolding handle_event_def
    by (cases ev)
      (auto simp: wp_bind wp_return wp_if Let_def
        intro!: wp_call_os_any one [unfolded wp_bind] served_still)
qed

lemma wp_handle_events:
  "dispatcher_wf d \<Longrightarrow> \<not> lock_flag d
     \<Longrightarrow> wp (handle_events K d xs) (\<lambda>(r, d') h'. served d h r d' h') h"
proof (induction xs arbitrary: d h)
  case Nil
  then show ?case by (simp add: wp_return served_still)
next
  case (Cons x xs)
  have then_on: "wp (handle_events K d' xs) (\<lambda>(r, d'') h'. served d h r d'' h') t"
    if "served d h Continue d' t" for d' t
  proof -
    have "dispatcher_wf d'" "\<not> lock_flag d'"
      using that Cons.prems same_table_keeps by (auto simp: served_def)
    from Cons.IH [OF this] show ?thesis
      by (rule wp_conseq) (auto intro: served_trans [OF that])
  qed
  show ?case
    unfolding handle_events.simps wp_rules
    by (rule wp_conseq [OF wp_handle_event [OF Cons.prems]])
      (auto simp: wp_rules split: prod.splits intro!: then_on)
qed

lemma wp_reap_turn:
  assumes "dispatcher_wf d" and "\<not> lock_flag d"
  shows "wp (reap_turn K d xs) (\<lambda>(r, d', _) h'. served d h r d' h') h"
proof -
  have some: "wp (handle_events K d ys) (\<lambda>(r, d') h'. served d h r d' h') t"
    if "frames_read t = frames_read h" "delivered t = delivered h" for ys t
    by (rule wp_conseq [OF wp_handle_events [OF assms]]) (use that in \<open>auto simp: served_def\<close>)
  show ?thesis
    unfolding reap_turn_def
    by (auto simp: wp_rules Let_def split: prod.splits
        intro!: wp_call_os_any wp_conseq [OF some] served_still)
qed

lemma wp_reap_loop:
  "dispatcher_wf d \<Longrightarrow> \<not> lock_flag d
     \<Longrightarrow> wp (reap_loop K fuel d xs) (\<lambda>(r, d') h'. served d h r d' h') h"
proof (induction fuel arbitrary: d xs h)
  case 0
  then show ?case by (simp add: wp_return served_still)
next
  case (Suc fuel)
  have then_on: "wp (reap_loop K fuel d' xs') (\<lambda>(r, d'') h'. served d h r d'' h') t"
    if "served d h Continue d' t" for d' t xs'
  proof -
    have "dispatcher_wf d'" "\<not> lock_flag d'"
      using that Suc.prems same_table_keeps by (auto simp: served_def)
    from Suc.IH [OF this] show ?thesis
      by (rule wp_conseq) (auto intro: served_trans [OF that])
  qed
  show ?case
    unfolding reap_loop.simps wp_rules
    by (rule wp_conseq [OF wp_reap_turn [OF Suc.prems]])
      (auto simp: wp_rules split: prod.splits intro!: then_on)
qed

subsection \<open>What the owner does\<close>

text \<open>
  The owner's calls in sequence. One that does not return would end the sequence; it is let go
  on, which covers that.
\<close>

datatype owner_op = Start nat | Stop

fun owner_ops :: "os \<Rightarrow> owner_op list \<Rightarrow> dispatcher \<Rightarrow> (unit \<times> dispatcher) io" where
  "owner_ops K [] d = State_Monad.return ((), d)"
| "owner_ops K (Start fuel # ops) d = do { (_, d) \<leftarrow> start K fuel d; owner_ops K ops d }"
| "owner_ops K (Stop # ops) d = do { (_, d) \<leftarrow> stop K d; owner_ops K ops d }"

text \<open>The threads a history started and has not joined.\<close>

fun live_threads :: "history \<Rightarrow> int" where
  "live_threads [] = 0"
| "live_threads ((c, r) # h) = (case c of
     Thr (ThreadStart n) \<Rightarrow> (if rv r = 0 then live_threads h + 1 else live_threads h)
   | Thr (ThreadJoin n) \<Rightarrow> live_threads h - 1
   | _ \<Rightarrow> live_threads h)"

lemma socket_ops_threads:
  "unchanged live_threads (ensure_connected K s)" "unchanged live_threads (flush_loop K n fd)"
  "unchanged live_threads (epoll_fd_add_sock_fd K d fd)" "unchanged live_threads (can_destroy K s)"
proof -
  show "unchanged live_threads (flush_loop K n fd)"
    by (induction n) (auto intro!: keeps_rules unchanged_call)
qed (unfold ensure_connected_def epoll_fd_add_sock_fd_def can_destroy_def,
     (intro keeps_rules unchanged_call; simp)+)

lemma flush_threads: "unchanged live_threads (flush K n s)"
  unfolding flush_def by (intro keeps_rules socket_ops_threads)

abbreviation disp_fd :: "dispatcher \<Rightarrow> int" where
  "disp_fd d \<equiv> sock_fd (can_sock d)"

definition thread_of :: "dispatcher \<Rightarrow> int" where
  "thread_of d = (if joinable d then 1 else 0)"

text \<open>What an operation of the owner does to threads, and which members it leaves alone.\<close>

definition owner_step :: "dispatcher \<Rightarrow> history \<Rightarrow> dispatcher \<Rightarrow> history \<Rightarrow> bool" where
  "owner_step d h d' h' \<longleftrightarrow> live_threads h' - thread_of d' = live_threads h - thread_of d
     \<and> epoll_fd d' = epoll_fd d \<and> thread_event_fd d' = thread_event_fd d \<and> funcs d' = funcs d
     \<and> lock_flag d' = lock_flag d"

lemma owner_step_trans: "owner_step d h d' h' \<Longrightarrow> owner_step d' h' d'' h'' \<Longrightarrow> owner_step d h d'' h''"
  by (simp add: owner_step_def)

lemma wp_stop_step: "wp (stop K d) (\<lambda>(_, d') h'. owner_step d h d' h') h"
  unfolding stop_def
  by (auto simp: wp_rules owner_step_def thread_of_def intro!: wp_call_os_any)

lemma wp_start_step: "wp (start K fuel d) (\<lambda>(_, d') h'. owner_step d h d' h') h"
  unfolding start_def wp_rules
  by (rule wp_conseq [OF keepsD [OF socket_ops_threads(1)]])
    (auto simp: wp_rules Let_def owner_step_def thread_of_def
      split: prod.splits sum.splits option.splits
      intro!: wp_conseq [OF keepsD [OF socket_ops_threads(3)]]
        wp_conseq [OF keepsD [OF flush_threads]] wp_call_os_any)

lemma keeps_epoll_add [keeps_rules]: "keeps fd_delta (epoll_fd_add_sock_fd K d fd)"
  unfolding epoll_fd_add_sock_fd_def by (intro keeps_rules) simp

lemma stop_balanced: "balanced disp_fd (stop K d) (disp_fd d)"
proof -
  have keep: "keeps fd_delta (thr K c)" "keeps fd_delta (sys K (Write fd b))" for c fd b
    by (intro keeps_rules; simp)+
  show ?thesis
    unfolding stop_def
    by (intro balanced_rules balanced_keeps [OF keep(1)] balanced_keeps [OF keep(2)]
        balanced_return) simp_all
qed

lemma start_balanced:
  assumes "streams_open K"
  shows "balanced disp_fd (start K fuel d) (disp_fd d)"
proof -
  have keep: "keeps fd_delta (thr K c)" for c
    by (intro keeps_rules) simp
  show ?thesis
    unfolding start_def Let_def
    by (intro can_handle.connect_bind [OF assms] balanced_rules balanced_keeps [OF keep]
        balanced_keeps [OF keeps_epoll_add] balanced_keeps [OF keeps_flush] balanced_return)
      simp_all
qed

lemma start_own:
  assumes "streams_open K"
  shows "wp (start K fuel d) (\<lambda>(_, d') _. disp_fd d' = -1 \<or> 0 < disp_fd d') h"
  unfolding start_def Let_def wp_rules
  by (rule wp_conseq [OF wp_ensure_connected])
    (auto simp: wp_rules assms split: prod.splits sum.splits option.splits
      intro!: wp_any [where m = "epoll_fd_add_sock_fd K d fd" for d fd]
        wp_any [where m = "flush K fuel s" for s] wp_call_os_any)

lemma stop_same_sock: "wp (stop K d) (\<lambda>(_, d') _. can_sock d' = can_sock d) h"
  unfolding stop_def by (auto simp: wp_rules intro!: wp_call_os_any)

lemma owner_ops_balanced:
  "streams_open K \<Longrightarrow> balanced disp_fd (owner_ops K ops d) (disp_fd d)"
  by (induction K ops d rule: owner_ops.induct)
    (auto intro!: balanced_return balanced_bind [OF start_balanced] balanced_bind [OF stop_balanced])

lemma owner_ops_step: "wp (owner_ops K ops d) (\<lambda>(_, d') h'. owner_step d h d' h') h"
proof (induction K ops d arbitrary: h rule: owner_ops.induct)
  case (1 K d)
  then show ?case by (simp add: wp_return owner_step_def)
next
  case (2 K fuel ops d)
  show ?case
    unfolding owner_ops.simps wp_rules
    by (rule wp_conseq [OF wp_start_step])
      (auto split: prod.splits intro!: wp_conseq [OF 2] elim: owner_step_trans)
next
  case (3 K ops d)
  show ?case
    unfolding owner_ops.simps wp_rules
    by (rule wp_conseq [OF wp_stop_step])
      (auto split: prod.splits intro!: wp_conseq [OF 3] elim: owner_step_trans)
qed

lemma owner_ops_own:
  "streams_open K \<Longrightarrow> (disp_fd d = -1 \<or> 0 < disp_fd d) \<or> (\<exists>f. Start f \<in> set ops)
     \<Longrightarrow> wp (owner_ops K ops d) (\<lambda>(_, d') _. disp_fd d' = -1 \<or> 0 < disp_fd d') h"
proof (induction K ops d arbitrary: h rule: owner_ops.induct)
  case (1 K d)
  then show ?case by (simp add: wp_return)
next
  case (2 K fuel ops d)
  show ?case
    unfolding owner_ops.simps wp_rules
    by (rule wp_conseq [OF start_own [OF 2(2)]])
      (auto split: prod.splits intro!: 2(1) 2(2))
next
  case (3 K ops d)
  show ?case
    unfolding owner_ops.simps wp_rules
    by (rule wp_conseq [OF stop_same_sock])
      (use 3(3) in \<open>auto split: prod.splits intro!: 3(1) 3(2)\<close>)
qed

lemma wp_mk_dispatcher:
  "wp (mk_dispatcher K l n c)
     (\<lambda>r h'. case r of
         Inr d \<Rightarrow> fd_count h' = (\<lambda>x. fd_count h x + gain (epoll_fd d) x + gain (thread_event_fd d) x)
           \<and> epoll_fd d \<noteq> -1 \<and> thread_event_fd d \<noteq> -1 \<and> can_sock d = mk_can_socket n
           \<and> dispatcher_wf d \<and> \<not> lock_flag d \<and> \<not> joinable d
           \<and> live_threads h' = live_threads h
       | Inl _ \<Rightarrow> True) h"
  unfolding mk_dispatcher_def epoll_fd_add_sock_fd_def can_destroy_def
  by (auto simp: wp_rules Let_def fun_eq_iff fresh_dispatcher_def dispatcher_wf_def
      split: option.split sum.splits intro!: wp_call_os_any)

lemma wp_dispatcher_destroy:
  assumes "disp_fd d = -1 \<or> 0 < disp_fd d" and "epoll_fd d \<noteq> -1" and "thread_event_fd d \<noteq> -1"
  shows "wp (dispatcher_destroy K d) (\<lambda>_ h'. fd_count h' = (\<lambda>x. fd_count h x
      - gain (epoll_fd d) x - gain (thread_event_fd d) x - opened (disp_fd d) x)
    \<and> live_threads h' = live_threads h - thread_of d) h"
  using assms unfolding dispatcher_destroy_def stop_def can_destroy_def
  by (auto simp: wp_rules fun_eq_iff thread_of_def opened_def intro!: wp_call_os_any)

subsection \<open>Stopping the thread\<close>

lemma handle_event_results:
  "wp (handle_event K d ev)
     (\<lambda>(r, _) _. r = Continue \<or> r = Returned \<or> r = Undefined \<or> r = Blocked) h"
  unfolding handle_event_def dispatch_def
  by (auto simp: wp_rules Let_def split: prod.split option.split
      intro!: wp_call_os_any wp_any [where m = "record_latency K d f" for f])

lemma handle_events_stop:
  assumes stop: "\<And>h. rv (respond K h (Thr StopRequested)) \<noteq> 0"
  shows "dispatcher_wf d \<Longrightarrow> \<not> lock_flag d \<Longrightarrow> thread_event_fd d \<in> fst ` set xs
    \<Longrightarrow> wp (handle_events K d xs) (\<lambda>(r, d') h'. r = Returned \<or> r = Undefined) h"
proof (induction xs arbitrary: d h)
  case Nil
  then show ?case by simp
next
  case (Cons e es d t)
  have now: "wp (handle_event K d e) (\<lambda>(r, _) _. fst e = thread_event_fd d \<longrightarrow> r = Returned) t"
    unfolding handle_event_def
    by (cases e)
      (auto simp: wp_rules Let_def stop intro!: wp_call_os
        wp_any [where m = "record_latency K d f" for f] wp_any [where m = "dispatch K d f" for d f])
  have later: "wp (handle_events K d' es) (\<lambda>(r, _) _. r = Returned \<or> r = Undefined) t'"
    if "served d t Continue d' t'" and "fst e \<noteq> thread_event_fd d" for d' t'
    using that Cons.prems by (intro Cons.IH) (auto simp: served_def same_table_def dispatcher_wf_def)
  show ?case
    unfolding handle_events.simps wp_rules
    by (rule wp_conseq [OF wp_conj [OF now wp_conj [OF handle_event_results
          wp_handle_event [OF Cons.prems(1,2)]]]])
      (auto simp: wp_return served_def [of _ _ Blocked] split: prod.splits intro!: later)
qed

subsection \<open>Properties\<close>

text \<open>C22: Registering a function for identifiers below 2048 succeeds, maps exactly these
  identifiers to it and leaves every other callback as it was; the lock is free again.\<close>

theorem register_updates_table:
  assumes "dispatcher_wf d" and "\<not> lock_flag d" and "ids \<subseteq> {..<2048}"
  shows "\<exists>d'. register_func d ids cb = Some (Inr (), d') \<and> \<not> lock_flag d' \<and> dispatcher_wf d'
     \<and> callback_for (funcs d') = (\<lambda>i. if i \<in> ids then Some cb else callback_for (funcs d) i)"
proof -
  have "finite ids"
    using assms(3) finite_subset by blast
  from register_func_eq [OF assms(1,2) this, of cb] assms(3) obtain fs where
    "length fs = max_std_can_id"
    "callback_for fs = (\<lambda>i. if i \<in> ids \<and> i < max_std_can_id then Some cb
       else callback_for (funcs d) i)"
    "register_func d ids cb = Some (Inr (), d\<lparr>funcs := fs\<rparr>)"
    by (auto simp: max_std_can_id_def)
  moreover have "(i \<in> ids \<and> i < max_std_can_id) = (i \<in> ids)" for i
    using assms(3) by (auto simp: max_std_can_id_def)
  ultimately show ?thesis
    using assms(2) by (intro exI [of _ "d\<lparr>funcs := fs\<rparr>"]) (simp add: dispatcher_wf_def)
qed

theorem register_updates_table_witness:
  "\<exists>d'. register_func (fresh_dispatcher False ''can0'') {5, 7} 9 = Some (Inr (), d')
     \<and> \<not> lock_flag d' \<and> dispatcher_wf d'
     \<and> callback_for (funcs d') = (\<lambda>i. if i \<in> {5, 7} then Some 9
          else callback_for (funcs (fresh_dispatcher False ''can0'')) i)"
  by (rule register_updates_table [OF dispatcher_wf_fresh])
    (auto simp: fresh_dispatcher_def)

text \<open>C40: Registering with an identifier of 2048 or more fails, but not without effect: the
  identifiers below 2048 are registered, and the lock is not released. From then on no
  registration returns and no frame read by the thread gets past the lock.\<close>

theorem failed_registration_wedges:
  assumes "dispatcher_wf d" and "\<not> lock_flag d" and "finite ids" and "i \<in> ids" and "2048 \<le> i"
  shows "\<exists>e d'. register_func d ids cb = Some (Inl e, d') \<and> code e = FuncCANIdSetError
     \<and> callback_for (funcs d') = (\<lambda>i. if i \<in> ids \<and> i < 2048 then Some cb
          else callback_for (funcs d) i)
     \<and> register_func d' ids' cb' = None
     \<and> run_state (dispatch K d' f) h = ((Blocked, d'), h)"
proof -
  have "\<not> ids \<subseteq> {..<max_std_can_id}"
    using assms(4,5) by (auto simp: max_std_can_id_def)
  with register_func_eq [OF assms(1-3), of cb] obtain fs e where
    "callback_for fs = (\<lambda>i. if i \<in> ids \<and> i < max_std_can_id then Some cb
       else callback_for (funcs d) i)"
    "register_func d ids cb = Some (Inl e, d\<lparr>funcs := fs, lock_flag := True\<rparr>)"
    "code e = FuncCANIdSetError"
    by auto
  then show ?thesis
    by (intro exI [of _ e] exI [of _ "d\<lparr>funcs := fs, lock_flag := True\<rparr>"])
      (simp add: register_func_def dispatch_def max_std_can_id_def)
qed

theorem failed_registration_wedges_witness:
  "\<exists>e d'. register_func (fresh_dispatcher False ''can0'') {1, 2048} 9 = Some (Inl e, d')
     \<and> code e = FuncCANIdSetError
     \<and> callback_for (funcs d') = (\<lambda>i. if i \<in> {1, 2048} \<and> i < 2048 then Some 9
          else callback_for (funcs (fresh_dispatcher False ''can0'')) i)
     \<and> register_func d' {3} 4 = None
     \<and> run_state (dispatch sample_os d' zero_frame) [] = ((Blocked, d'), [])"
  by (rule failed_registration_wedges [OF dispatcher_wf_fresh, where i = 2048])
    (auto simp: fresh_dispatcher_def)

text \<open>C19: While the lock is not held by someone who lost it, whatever the thread is told by
  \<open>epoll_wait\<close> and however long it runs: every frame it reads, and nothing else, is given to the
  callback registered for its identifier, once, in the order read; frames without a callback are
  dropped; the table and the descriptors stay as they are; only an identifier of 2048 or more
  stops it, by an access outside the table.\<close>

theorem frames_reach_their_callbacks:
  assumes "dispatcher_wf d" and "\<not> lock_flag d"
  shows "wp (reap_loop K fuel d xs) (\<lambda>(r, d') h'. same_table d d' \<and> r \<noteq> Blocked
     \<and> (\<exists>fs. frames_read h' = fs @ frames_read h
          \<and> delivered h' = concat (map (due d) fs) @ delivered h
          \<and> (r = Undefined) = (\<exists>f. f \<in> set fs \<and> 2048 \<le> unat (can_id f)))) h"
proof -
  have large: "\<exists>f. f \<in> set fs \<and> \<not> unat (can_id f) < 2048"
    if "fs \<noteq> []" and "\<not> unat (can_id (hd fs)) < 2048" for fs
    by (rule exI [of _ "hd fs"]) (use that in simp)
  show ?thesis
    by (rule wp_conseq [OF wp_reap_loop [OF assms]])
      (auto simp: served_def max_std_can_id_def large simp flip: not_less split: if_splits)
qed

text \<open>An environment in which one frame waits on descriptor 5.\<close>

definition frame_os :: "can_frame \<Rightarrow> os" where
  "frame_os f = sample_os\<lparr>respond := (\<lambda>h c. case c of
       Posix (EpollWait e n) \<Rightarrow> (plain_reply 1)\<lparr>evs := [(5, EPOLLIN)]\<rparr>
     | Posix (Read fd n) \<Rightarrow> (plain_reply 16)\<lparr>buf := encode_frame f\<rparr>
     | _ \<Rightarrow> respond sample_os h c)\<rparr>"

theorem frames_reach_their_callbacks_witness:
  "wp (reap_loop (frame_os zero_frame) 3 (fresh_dispatcher False ''can0'')
        (replicate MAX_EPOLL_EVENT (0, 0)))
     (\<lambda>(r, d') h'. same_table (fresh_dispatcher False ''can0'') d' \<and> r \<noteq> Blocked
     \<and> (\<exists>fs. frames_read h' = fs @ frames_read []
          \<and> delivered h' = concat (map (due (fresh_dispatcher False ''can0'')) fs) @ delivered []
          \<and> (r = Undefined) = (\<exists>f. f \<in> set fs \<and> 2048 \<le> unat (can_id f)))) []"
  by (rule frames_reach_their_callbacks [OF dispatcher_wf_fresh]) (simp add: fresh_dispatcher_def)

text \<open>A frame with an identifier of 2048 or more, as every extended frame has (bit 31 is set),
  makes the thread read outside the table of 2048 callbacks.\<close>

theorem large_identifier_undefined:
  assumes "dispatcher_wf d" and "\<not> lock_flag d" and "wf_frame f" and "2048 \<le> unat (can_id f)"
    and "fd \<noteq> thread_event_fd d"
    and "\<And>h. rv (respond K h (Posix (Read fd 16))) = 16
        \<and> buf (respond K h (Posix (Read fd 16))) = encode_frame f"
  shows "wp (handle_event K d (fd, EPOLLIN)) (\<lambda>(r, _) _. r = Undefined) h"
proof -
  have "wp (do { d \<leftarrow> record_latency K d f; dispatch K d f }) (\<lambda>(r, _) _. r = Undefined) t" for t
    by (rule wp_conseq [OF wp_serve_frame [OF assms(1,2)]])
      (use assms(4) in \<open>auto simp: max_std_can_id_def\<close>)
  then show ?thesis
    unfolding handle_event_def sizeof_can_frame_def
    using assms(5,6) read_frame_full [OF assms(3)]
    by (auto simp: wp_rules Let_def intro!: wp_call_os)
qed

theorem large_identifier_undefined_witness:
  "wp (handle_event (frame_os (zero_frame\<lparr>can_id := 0x80000123\<rparr>)) (fresh_dispatcher False ''can0'')
        (5, EPOLLIN)) (\<lambda>(r, _) _. r = Undefined) []"
  by (rule large_identifier_undefined [OF dispatcher_wf_fresh, where f = "zero_frame\<lparr>can_id := 0x80000123\<rparr>"])
    (simp_all add: fresh_dispatcher_def wf_frame_def zero_frame_def frame_os_def)

text \<open>\<open>stop\<close> wakes the thread through an event descriptor whose counter nobody takes back: the
  thread that is told to stop returns without reading it. When the dispatcher is started again,
  the new thread, which is not told to stop, finds the descriptor readable, takes the eight
  bytes of the counter for a frame, and calls the callback of identifier 1 with a frame nobody
  sent.\<close>

theorem restart_delivers_phantom_frame:
  assumes "dispatcher_wf d" and "\<not> lock_flag d" and "callback_for (funcs d) 1 = Some cb"
    and "\<And>h. rv (respond K h (Thr StopRequested)) = 0"
    and "\<And>h. rv (respond K h (Posix (Read (thread_event_fd d) 16))) = 8
        \<and> buf (respond K h (Posix (Read (thread_event_fd d) 16))) = [1, 0, 0, 0, 0, 0, 0, 0]"
    and "\<And>h. rv (respond K' h (Thr StopRequested)) \<noteq> 0"
  shows "wp (handle_event K' d (thread_event_fd d, EPOLLIN))
      (\<lambda>(r, d') h'. r = Returned \<and> d' = d \<and> reads (thread_event_fd d) h' = reads (thread_event_fd d) h) h
    \<and> wp (handle_event K d (thread_event_fd d, EPOLLIN))
      (\<lambda>(r, _) h'. r = Continue \<and> delivered h' = (cb, zero_frame\<lparr>can_id := 1\<rparr>) # delivered h) h"
proof -
  have frame: "read_frame [1, 0, 0, 0, 0, 0, 0, 0] = zero_frame\<lparr>can_id := 1\<rparr>"
    by (simp add: decode_frame_def overwrite_def encode_frame_def zero_frame_def le32_def
        of_le32_def numeral_eq_Suc)
  have due: "due d (zero_frame\<lparr>can_id := 1\<rparr>) = [(cb, zero_frame\<lparr>can_id := 1\<rparr>)]"
    using assms(3) by (simp add: due_def)
  have serve: "wp (do { d \<leftarrow> record_latency K d (zero_frame\<lparr>can_id := 1\<rparr>);
          dispatch K d (zero_frame\<lparr>can_id := 1\<rparr>) })
      (\<lambda>(r, _) h'. r = Continue
         \<and> delivered h' = (cb, zero_frame\<lparr>can_id := 1\<rparr>) # delivered t) t" for t
    by (rule wp_conseq [OF wp_serve_frame [OF assms(1,2)]])
      (use due in \<open>auto simp: max_std_can_id_def\<close>)
  have "wp (handle_event K d (thread_event_fd d, EPOLLIN))
      (\<lambda>(r, _) h'. r = Continue \<and> delivered h' = (cb, zero_frame\<lparr>can_id := 1\<rparr>) # delivered h) h"
    unfolding handle_event_def sizeof_can_frame_def
    using assms(4,5) frame
    by (auto simp: wp_rules Let_def intro!: wp_call_os wp_conseq [OF serve [unfolded wp_bind]])
  moreover have "wp (handle_event K' d (thread_event_fd d, EPOLLIN))
      (\<lambda>(r, d') h'. r = Returned \<and> d' = d \<and> reads (thread_event_fd d) h' = reads (thread_event_fd d) h) h"
    unfolding handle_event_def using assms(6)
    by (auto simp: wp_rules intro!: wp_call_os)
  ultimately show ?thesis by blast
qed

text \<open>
  An environment in which the event descriptor 7 is readable with a counter of one, and stopping
  has been requested or not.
\<close>

definition wakeup_os :: "bool \<Rightarrow> os" where
  "wakeup_os requested = sample_os\<lparr>respond := (\<lambda>h c. case c of
       Posix (EpollWait e n) \<Rightarrow> (plain_reply 1)\<lparr>evs := [(7, EPOLLIN)]\<rparr>
     | Posix (Read fd n) \<Rightarrow> (plain_reply 8)\<lparr>buf := [1, 0, 0, 0, 0, 0, 0, 0]\<rparr>
     | Thr StopRequested \<Rightarrow> plain_reply (if requested then 1 else 0)
     | _ \<Rightarrow> respond sample_os h c)\<rparr>"

definition listening_dispatcher :: dispatcher where
  "listening_dispatcher = (fresh_dispatcher False ''can0'')
     \<lparr>thread_event_fd := 7, epoll_fd := 6, funcs := (replicate 2048 None)[1 := Some 9]\<rparr>"

lemma listening_dispatcher_simps:
  "dispatcher_wf listening_dispatcher" "\<not> lock_flag listening_dispatcher"
  "thread_event_fd listening_dispatcher = 7" "epoll_fd listening_dispatcher = 6"
  "callback_for (funcs listening_dispatcher) 1 = Some 9"
  by (simp_all add: listening_dispatcher_def fresh_dispatcher_def dispatcher_wf_def
      max_std_can_id_def callback_for_def)

lemma wakeup_replies:
  "rv (respond (wakeup_os b) h (Thr StopRequested)) = (if b then 1 else 0)"
  "rv (respond (wakeup_os b) h (Posix (Read fd n))) = 8"
  "buf (respond (wakeup_os b) h (Posix (Read fd n))) = [1, 0, 0, 0, 0, 0, 0, 0]"
  by (simp_all add: wakeup_os_def)

theorem restart_delivers_phantom_frame_witness:
  "wp (handle_event (wakeup_os True) listening_dispatcher (7, EPOLLIN))
      (\<lambda>(r, d') h'. r = Returned \<and> d' = listening_dispatcher \<and> reads 7 h' = reads 7 []) []
    \<and> wp (handle_event (wakeup_os False) listening_dispatcher (7, EPOLLIN))
      (\<lambda>(r, _) h'. r = Continue \<and> delivered h' = (9, zero_frame\<lparr>can_id := 1\<rparr>) # delivered []) []"
  using restart_delivers_phantom_frame [of listening_dispatcher 9 "wakeup_os False" "wakeup_os True" "[]"]
  by (simp add: listening_dispatcher_simps wakeup_replies del: One_nat_def)

text \<open>C28: Told to stop, the thread ends: if every \<open>epoll_wait\<close> after the request either fails or
  reports the event descriptor among what is ready, as it does once \<open>stop\<close> has written to it,
  the loop returns within one turn (or has run into an identifier outside the table before).\<close>

theorem stop_request_ends_loop:
  assumes "dispatcher_wf d" and "\<not> lock_flag d" and "length xs = MAX_EPOLL_EVENT"
    and "\<And>h. rv (respond K h (Thr StopRequested)) \<noteq> 0"
    and "\<And>h. let w = respond K h (Posix (EpollWait (epoll_fd d) MAX_EPOLL_EVENT)) in
       rv w = -1 \<or> (0 < rv w \<and> nat (rv w) = length (evs w) \<and> length (evs w) \<le> MAX_EPOLL_EVENT
         \<and> thread_event_fd d \<in> fst ` set (evs w))"
  shows "wp (reap_loop K (Suc fuel) d xs) (\<lambda>(r, _) _. r = Returned \<or> r = Undefined) h"
proof -
  have take: "take (length ys) (overwrite xs ys) = ys" if "length ys \<le> MAX_EPOLL_EVENT" for ys
    using that assms(3) by (simp add: overwrite_def)
  have "wp (reap_turn K d xs) (\<lambda>(r, _, _) _. r = Returned \<or> r = Undefined) h"
  proof (unfold reap_turn_def wp_rules, rule wp_call_os, goal_cases)
    case (1 w)
    have "rv w = -1 \<or> (0 < rv w \<and> nat (rv w) = length (evs w)
        \<and> length (evs w) \<le> MAX_EPOLL_EVENT \<and> thread_event_fd d \<in> fst ` set (evs w))"
      using assms(5) [of h] by (simp only: 1 Let_def)
    then show ?case
      by (auto simp: wp_rules Let_def take assms(4) split: prod.splits
          intro!: wp_call_os wp_conseq [OF handle_events_stop [OF assms(4,1,2)]])
  qed
  then show ?thesis
    unfolding reap_loop.simps wp_rules
    by (rule wp_conseq) (auto simp: wp_return)
qed

theorem stop_request_ends_loop_witness:
  "wp (reap_loop (wakeup_os True) (Suc 0) listening_dispatcher (replicate MAX_EPOLL_EVENT (0, 0)))
     (\<lambda>(r, _) _. r = Returned \<or> r = Undefined) []"
  by (rule stop_request_ends_loop)
    (simp_all add: listening_dispatcher_simps wakeup_os_def MAX_EPOLL_EVENT_def)

text \<open>A dispatcher whose owner starts it (at least once) and stops it in any order, with
  whatever failures, and then destroys it, leaves the process with the descriptors it had; and
  at every moment it has started exactly one thread more than it has joined if the thread is
  joinable, and as many otherwise, so it never has two and its destruction leaves none.\<close>

theorem dispatcher_lifecycle:
  assumes "streams_open K" and "Start fuel \<in> set ops"
  shows "wp (mk_dispatcher K l name cpu) (\<lambda>r h'. case r of
      Inl _ \<Rightarrow> True
    | Inr d \<Rightarrow> wp (owner_ops K ops d) (\<lambda>(_, d') h''.
          live_threads h'' - thread_of d' = live_threads h
        \<and> wp (dispatcher_destroy K d') (\<lambda>_ h3.
            fd_count h3 = fd_count h \<and> live_threads h3 = live_threads h) h'') h') h"
proof (rule wp_conseq [OF wp_mk_dispatcher])
  fix r h1
  assume made: "case r of
         Inr d \<Rightarrow> fd_count h1 = (\<lambda>x. fd_count h x + gain (epoll_fd d) x + gain (thread_event_fd d) x)
           \<and> epoll_fd d \<noteq> -1 \<and> thread_event_fd d \<noteq> -1 \<and> can_sock d = mk_can_socket name
           \<and> dispatcher_wf d \<and> \<not> lock_flag d \<and> \<not> joinable d
           \<and> live_threads h1 = live_threads h
       | Inl _ \<Rightarrow> True"
  have "\<exists>f. Start f \<in> set ops"
    using assms(2) by blast
  note ops = wp_conj [OF owner_ops_step
      wp_conj [OF owner_ops_own [OF assms(1) disjI2 [OF this]]
        owner_ops_balanced [OF assms(1), unfolded balanced_def, THEN spec]]]
  show "case r of
      Inl _ \<Rightarrow> True
    | Inr d \<Rightarrow> wp (owner_ops K ops d) (\<lambda>(_, d') h''.
          live_threads h'' - thread_of d' = live_threads h
        \<and> wp (dispatcher_destroy K d') (\<lambda>_ h3.
            fd_count h3 = fd_count h \<and> live_threads h3 = live_threads h) h'') h1"
    using made
    by (auto simp: owner_step_def thread_of_def [of d for d] fun_eq_iff split: sum.splits
        intro!: wp_conseq [OF ops] wp_conseq [OF wp_dispatcher_destroy])
qed

theorem dispatcher_lifecycle_witness:
  "wp (mk_dispatcher sample_os False ''can0'' None) (\<lambda>r h'. case r of
      Inl _ \<Rightarrow> True
    | Inr d \<Rightarrow> wp (owner_ops sample_os [Start 3, Stop, Start 3] d) (\<lambda>(_, d') h''.
          live_threads h'' - thread_of d' = live_threads []
        \<and> wp (dispatcher_destroy sample_os d') (\<lambda>_ h3.
            fd_count h3 = fd_count [] \<and> live_threads h3 = live_threads []) h'') h') []"
  by (rule dispatcher_lifecycle [OF streams_open_sample, where fuel = 3]) simp

text \<open>When the constructor cannot make its event descriptor it throws, and the epoll descriptor
  it has made stays open with no object that owns it; the destruction of its socket member
  closes descriptor 0, which was never opened.\<close>

theorem constructor_failure_leaks:
  assumes "\<And>h. rv (respond K h (Posix (EpollCreate 256))) = e" and "0 < e"
    and "\<And>h. rv (respond K h (Posix Eventfd)) = -1"
  shows "wp (mk_dispatcher K l name cpu) (\<lambda>r h'. \<not> has_value r
     \<and> fd_count h' = (\<lambda>x. fd_count h x + gain e x - gain 0 x)) h"
  unfolding mk_dispatcher_def can_destroy_def fresh_dispatcher_def using assms
  by (auto simp: wp_rules Let_def fun_eq_iff intro!: wp_call_os)

definition no_eventfd_os :: os where
  "no_eventfd_os = sample_os\<lparr>respond := (\<lambda>h c. case c of
       Posix (EpollCreate n) \<Rightarrow> plain_reply 6
     | Posix Eventfd \<Rightarrow> plain_reply (-1)
     | _ \<Rightarrow> respond sample_os h c)\<rparr>"

theorem constructor_failure_leaks_witness:
  "wp (mk_dispatcher no_eventfd_os False ''can0'' None) (\<lambda>r h'. \<not> has_value r
     \<and> fd_count h' = (\<lambda>x. fd_count [] x + gain 6 x - gain 0 x)) []"
  by (rule constructor_failure_leaks) (simp_all add: no_eventfd_os_def)

end
