(* ===== verification/Can_Interface.thy ===== *)
theory Can_Interface
  imports Ipc_Manager Can_Sender Frame_Dispatcher
begin

section \<open>The interface object of the library\<close>

text \<open>
  \<open>Interface/Interface.hpp\<close> and \<open>Interface.cpp\<close>: what an application uses. An interface owns a
  dispatcher and a sender and goes through the process-wide IPC manager, whose state is passed
  along. A result is \<open>None\<close> when the operation does not return (a flush that does not end,
  a thread that could not be started) or is undefined (a manager without a client), which
  \<open>Ipc_Manager\<close> excludes.
\<close>

subsection \<open>The object and its operations\<close>

datatype InterfaceType = CAN | VCAN

record can_interface =
  iface_name :: string
  iface_dispatcher :: dispatcher
  iface_sender :: can_sender

definition mk_interface ::
  "os \<Rightarrow> bool \<Rightarrow> string \<Rightarrow> byte option \<Rightarrow> (string, can_interface) expected io" where
  "mk_interface K latency name cpu_core_opt = do {
     made \<leftarrow> mk_dispatcher K latency name cpu_core_opt;
     State_Monad.return (case made of
         Inl e \<Rightarrow> Inl e
       | Inr d \<Rightarrow> Inr \<lparr>iface_name = name, iface_dispatcher = d, iface_sender = mk_can_sender name\<rparr>)
   }"

text \<open>The last two lines of \<open>up\<close>: the state is set, and then the dispatcher started.\<close>

definition set_and_start ::
  "os \<Rightarrow> nat \<Rightarrow> ipc_manager \<Rightarrow> can_interface \<Rightarrow> 32 word
     \<Rightarrow> ((Error, unit) expected option \<times> ipc_manager \<times> can_interface) io" where
  "set_and_start K fuel m i rate = do {
     (r, m) \<leftarrow> ipc_set K m (iface_name i) True rate;
     case r of
       Some (Inr _) \<Rightarrow> do {
         (started, d) \<leftarrow> Frame_Dispatcher.start K fuel (iface_dispatcher i);
         State_Monad.return (started, m, i\<lparr>iface_dispatcher := d\<rparr>)
       }
     | Some (Inl e) \<Rightarrow> State_Monad.return (Some (Inl e), m, i)
     | None \<Rightarrow> State_Monad.return (None, m, i)
   }"

definition interface_up ::
  "os \<Rightarrow> nat \<Rightarrow> InterfaceType \<Rightarrow> ipc_manager \<Rightarrow> can_interface \<Rightarrow> 32 word
     \<Rightarrow> ((Error, unit) expected option \<times> ipc_manager \<times> can_interface) io" where
  "interface_up K fuel T m i rate = do {
     (found, m) \<leftarrow> ipc_exists K m (iface_name i);
     case found of
       None \<Rightarrow> State_Monad.return (None, m, i)
     | Some (Inl e) \<Rightarrow> State_Monad.return (Some (Inl e), m, i)
     | Some (Inr there) \<Rightarrow>
         (if there then set_and_start K fuel m i rate
          else case T of
              VCAN \<Rightarrow> do {
                (created, m) \<leftarrow> ipc_create_vcan K m (iface_name i);
                case created of
                  None \<Rightarrow> State_Monad.return (None, m, i)
                | Some (Inl e) \<Rightarrow> State_Monad.return (Some (Inl e), m, i)
                | Some (Inr _) \<Rightarrow> set_and_start K fuel m i rate
              }
            | CAN \<Rightarrow> State_Monad.return (Some (Inl (mk_error NetlinkBringUpError
                (''CAN interface '' @ quote @ iface_name i @ quote @ '' not found''))), m, i))
   }"

definition default_bitrate :: "32 word" where
  "default_bitrate = 1000000"

definition interface_down ::
  "os \<Rightarrow> ipc_manager \<Rightarrow> can_interface
     \<Rightarrow> ((Error, unit) expected option \<times> ipc_manager \<times> can_interface) io" where
  "interface_down K m i = do {
     (r, m) \<leftarrow> ipc_set K m (iface_name i) False default_bitrate;
     case r of
       Some (Inr _) \<Rightarrow> do {
         (stopped, d) \<leftarrow> Frame_Dispatcher.stop K (iface_dispatcher i);
         State_Monad.return (Some stopped, m, i\<lparr>iface_dispatcher := d\<rparr>)
       }
     | Some (Inl e) \<Rightarrow> State_Monad.return (Some (Inl e), m, i)
     | None \<Rightarrow> State_Monad.return (None, m, i)
   }"

definition iface_exists ::
  "os \<Rightarrow> ipc_manager \<Rightarrow> can_interface \<Rightarrow> ((Error, bool) expected option \<times> ipc_manager) io" where
  "iface_exists K m i = ipc_exists K m (iface_name i)"

definition iface_is_up ::
  "os \<Rightarrow> ipc_manager \<Rightarrow> can_interface \<Rightarrow> ((Error, bool) expected option \<times> ipc_manager) io" where
  "iface_is_up K m i = ipc_is_up K m (iface_name i)"

definition interface_send ::
  "os \<Rightarrow> ('t \<Rightarrow> can_frame) \<Rightarrow> can_interface \<Rightarrow> 't
     \<Rightarrow> ((Error, unit) expected \<times> can_interface) io" where
  "interface_send K to_frame i frame = do {
     (r, s) \<leftarrow> can_send K to_frame (iface_sender i) frame;
     State_Monad.return (r, i\<lparr>iface_sender := s\<rparr>)
   }"

definition register_callback ::
  "can_interface \<Rightarrow> nat set \<Rightarrow> nat \<Rightarrow> ((Error, unit) expected \<times> can_interface) option" where
  "register_callback i can_ids cb =
     (case register_func (iface_dispatcher i) can_ids cb of
        None \<Rightarrow> None
      | Some (r, d) \<Rightarrow> Some (r, i\<lparr>iface_dispatcher := d\<rparr>))"

text \<open>The destructor: the members in the reverse of their order.\<close>

definition interface_destroy :: "os \<Rightarrow> can_interface \<Rightarrow> unit io" where
  "interface_destroy K i = do {
     _ \<leftarrow> sender_destroy K (iface_sender i);
     dispatcher_destroy K (iface_dispatcher i)
   }"

subsection \<open>What the operations leave\<close>

lemma keeps_ipc_ops [keeps_rules]:
  "keeps fd_delta (ipc_set K m n up r)" "keeps fd_delta (ipc_exists K m n)"
  "keeps fd_delta (ipc_is_up K m n)" "keeps fd_delta (ipc_create_vcan K m n)"
  unfolding ipc_set_def ipc_exists_def ipc_is_up_def ipc_create_vcan_def
  by (intro keeps_rules)+

abbreviation started :: "can_interface \<Rightarrow> bool" where
  "started i \<equiv> joinable (iface_dispatcher i) \<and> 0 < disp_fd (iface_dispatcher i)"

lemma wp_start_running:
  assumes "streams_open K"
  shows "wp (Frame_Dispatcher.start K fuel d)
    (\<lambda>(r, d') _. r = Some (Inr ()) \<longrightarrow> joinable d' \<and> 0 < disp_fd d') h"
  unfolding start_def Let_def wp_rules
  by (rule wp_conseq [OF can_handle.connect_result [OF assms]])
    (auto simp: wp_rules split: prod.splits sum.splits option.splits
      intro!: wp_any [where m = "epoll_fd_add_sock_fd K d fd" for d fd]
        wp_any [where m = "flush K fuel s" for s] wp_call_os_any)

lemma set_and_start_outcome:
  assumes "streams_open K"
  shows "wp (set_and_start K fuel m i rate) (\<lambda>(r, m', i') _.
    (r = Some (Inr ()) \<longrightarrow> started i') \<and> iface_name i' = iface_name i
      \<and> iface_sender i' = iface_sender i) h"
  unfolding set_and_start_def
  by (auto simp: wp_rules split: prod.splits sum.splits option.splits
      intro!: wp_any [where m = "ipc_set K m n u r" for m n u r]
        wp_conseq [OF wp_start_running [OF assms]])

text \<open>What the dispatcher's and the sender's operations do to descriptors.\<close>

definition disp_step :: "dispatcher \<Rightarrow> history \<Rightarrow> dispatcher \<Rightarrow> history \<Rightarrow> bool" where
  "disp_step d h d' h' \<longleftrightarrow>
     fd_count h' = (\<lambda>x. fd_count h x - opened (disp_fd d) x + opened (disp_fd d') x)
     \<and> epoll_fd d' = epoll_fd d \<and> thread_event_fd d' = thread_event_fd d
     \<and> (-1 \<le> disp_fd d \<longrightarrow> -1 \<le> disp_fd d')"

lemma wp_start_disp:
  assumes "streams_open K"
  shows "wp (Frame_Dispatcher.start K fuel d) (\<lambda>(_, d') h'. disp_step d h d' h') h"
  by (rule wp_conseq [OF wp_conj [OF start_balanced [OF assms, unfolded balanced_def, THEN spec]
          wp_conj [OF wp_start_step start_own [OF assms]]]])
    (auto simp: disp_step_def owner_step_def)

lemma wp_stop_disp: "wp (Frame_Dispatcher.stop K d) (\<lambda>(_, d') h'. disp_step d h d' h') h"
  by (rule wp_conseq [OF wp_conj [OF stop_balanced [unfolded balanced_def, THEN spec]
          wp_conj [OF wp_stop_step stop_same_sock]]])
    (auto simp: disp_step_def owner_step_def)

definition iface_step :: "can_interface \<Rightarrow> history \<Rightarrow> can_interface \<Rightarrow> history \<Rightarrow> bool" where
  "iface_step i h i' h' \<longleftrightarrow>
     fd_count h' = (\<lambda>x. fd_count h x
       - opened (disp_fd (iface_dispatcher i)) x + opened (disp_fd (iface_dispatcher i')) x
       - opened (sender_fd (iface_sender i)) x + opened (sender_fd (iface_sender i')) x)
     \<and> epoll_fd (iface_dispatcher i') = epoll_fd (iface_dispatcher i)
     \<and> thread_event_fd (iface_dispatcher i') = thread_event_fd (iface_dispatcher i)
     \<and> (-1 \<le> disp_fd (iface_dispatcher i) \<longrightarrow> -1 \<le> disp_fd (iface_dispatcher i'))
     \<and> (-1 \<le> sender_fd (iface_sender i) \<longrightarrow> -1 \<le> sender_fd (iface_sender i'))"

lemma iface_step_refl: "fd_count h' = fd_count h \<Longrightarrow> iface_step i h i h'"
  by (simp add: iface_step_def)

lemma iface_step_disp:
  "disp_step (iface_dispatcher i) t d h' \<Longrightarrow> fd_count t = fd_count h
     \<Longrightarrow> iface_step i h (i\<lparr>iface_dispatcher := d\<rparr>) h'"
  by (simp add: iface_step_def disp_step_def)

lemma iface_step_trans: "iface_step i h i' h' \<Longrightarrow> iface_step i' h' i'' h'' \<Longrightarrow> iface_step i h i'' h''"
  by (auto simp: iface_step_def fun_eq_iff)

lemma set_and_start_step:
  assumes "streams_open K" and "fd_count t = fd_count h"
  shows "wp (set_and_start K fuel m i rate) (\<lambda>(_, _, i') h'. iface_step i h i' h') t"
  unfolding set_and_start_def
  by (auto simp: wp_rules assms(2) split: prod.splits sum.splits option.splits
      intro!: wp_conseq [OF keepsD [OF keeps_ipc_ops(1)]] wp_conseq [OF wp_start_disp [OF assms(1)]]
        iface_step_refl iface_step_disp)

lemma interface_up_step:
  assumes "streams_open K"
  shows "wp (interface_up K fuel T m i rate) (\<lambda>(_, _, i') h'. iface_step i h i' h') h"
  unfolding interface_up_def
  by (auto simp: wp_rules split: prod.splits sum.splits option.splits InterfaceType.split
      intro!: wp_conseq [OF keepsD [OF keeps_ipc_ops(2)]] wp_conseq [OF keepsD [OF keeps_ipc_ops(4)]]
        set_and_start_step [OF assms]
        iface_step_refl)

lemma interface_down_step:
  "wp (interface_down K m i) (\<lambda>(_, _, i') h'. iface_step i h i' h') h"
  unfolding interface_down_def
  by (auto simp: wp_rules split: prod.splits sum.splits option.splits
      intro!: wp_conseq [OF keepsD [OF keeps_ipc_ops(1)]] wp_conseq [OF wp_stop_disp]
        iface_step_refl iface_step_disp)

lemma interface_send_step:
  assumes "streams_open K"
  shows "wp (interface_send K f i x) (\<lambda>(_, i') h'. iface_step i h i' h') h"
  unfolding interface_send_def wp_rules
  by (rule wp_conseq [OF wp_conj [OF can_send_balanced [OF assms, unfolded balanced_def, THEN spec]
          wp_can_send_own [OF assms]]])
    (auto simp: wp_rules iface_step_def own_fd_def split: prod.splits)

subsection \<open>A life of an interface\<close>

text \<open>Any operations, in any order; one that does not return is let go on, which covers that it ends the life.\<close>

datatype iface_op = Up InterfaceType nat "32 word" | Down | SendFrame can_frame

fun iface_ops ::
  "os \<Rightarrow> iface_op list \<Rightarrow> ipc_manager \<Rightarrow> can_interface \<Rightarrow> (ipc_manager \<times> can_interface) io" where
  "iface_ops K [] m i = State_Monad.return (m, i)"
| "iface_ops K (Up T fuel rate # ops) m i = do {
     (_, m, i) \<leftarrow> interface_up K fuel T m i rate; iface_ops K ops m i }"
| "iface_ops K (Down # ops) m i = do { (_, m, i) \<leftarrow> interface_down K m i; iface_ops K ops m i }"
| "iface_ops K (SendFrame f # ops) m i = do {
     (_, i) \<leftarrow> interface_send K id i f; iface_ops K ops m i }"

lemma iface_ops_step:
  assumes "streams_open K"
  shows "wp (iface_ops K ops m i) (\<lambda>(_, i') h'. iface_step i h i' h') h"
proof (induction ops arbitrary: m i h)
  case Nil
  then show ?case by (simp add: wp_return iface_step_refl)
next
  case (Cons x ops)
  have rest: "wp (iface_ops K ops m' i') (\<lambda>(_, i'') h'. iface_step i h i'' h') t"
    if "iface_step i h i' t" for m' i' t
    by (rule wp_conseq [OF Cons.IH]) (auto intro: iface_step_trans [OF that])
  show ?case
    by (cases x) (auto simp: wp_rules split: prod.splits intro!: rest
        wp_conseq [OF interface_up_step [OF assms]] wp_conseq [OF interface_down_step]
        wp_conseq [OF interface_send_step [OF assms]])
qed

text \<open>How many of the two sockets were never connected.\<close>

definition unconnected :: "can_interface \<Rightarrow> int" where
  "unconnected i = (if disp_fd (iface_dispatcher i) = 0 then 1 else 0)
     + (if sender_fd (iface_sender i) = 0 then 1 else 0)"

lemma wp_interface_destroy:
  assumes "-1 \<le> disp_fd (iface_dispatcher i)" and "-1 \<le> sender_fd (iface_sender i)"
    and "epoll_fd (iface_dispatcher i) \<noteq> -1" and "thread_event_fd (iface_dispatcher i) \<noteq> -1"
  shows "wp (interface_destroy K i) (\<lambda>_ h'. fd_count h' = (\<lambda>x. fd_count h x
      - gain (epoll_fd (iface_dispatcher i)) x - gain (thread_event_fd (iface_dispatcher i)) x
      - opened (disp_fd (iface_dispatcher i)) x - opened (sender_fd (iface_sender i)) x
      - unconnected i * gain 0 x)) h"
  using assms
  unfolding interface_destroy_def dispatcher_destroy_def sender_destroy_def can_destroy_def stop_def
  by (auto simp: wp_rules fun_eq_iff opened_def unconnected_def intro!: wp_call_os_any)

subsection \<open>Requests to create a link\<close>

text \<open>How many requests to create a virtual interface a history has sent.\<close>

definition is_creation :: "byte list \<Rightarrow> bool" where
  "is_creation b \<longleftrightarrow> length b = sizeof_NetlinkRequest \<and> b ! 0 = type_code CREATE_VCAN_INTERFACE"

fun creations :: "history \<Rightarrow> nat" where
  "creations [] = 0"
| "creations ((c, r) # h) = (case c of
     Posix (Send fd b) \<Rightarrow> (if is_creation b then Suc (creations h) else creations h)
   | _ \<Rightarrow> creations h)"

lemma not_creation:
  "\<not> is_creation (encode_register_request q)"
  "\<not> is_creation (encode_request (mk_set_request n up f r))"
  "\<not> is_creation (encode_request (mk_query_request INTERFACE_EXISTS n))"
  by (simp_all add: is_creation_def encode_register_request_def sizeof_defs encode_request_def
      type_code.simps)

lemma creations_send: "\<not> is_creation b \<Longrightarrow> unchanged creations (unix_send K s b)"
  unfolding unix_send_def by (intro keeps_rules unchanged_call) simp

lemma creations_socket:
  "unchanged creations (initialize K s)" "unchanged creations (unix_destroy K s)"
  "unchanged creations (unix_recv K s n t)" "unchanged creations (thr K c)"
  "unchanged creations (ensure_connected K cs)"
  unfolding initialize_def unix_destroy_def unix_close_def unix_recv_def wait_readable_def
    ensure_connected_def
  by (intro keeps_rules unchanged_call; simp)+

lemma creations_request:
  "\<not> is_creation (encode_request q) \<Longrightarrow> unchanged creations (send_request K c q)"
  unfolding send_request_def ensure_registered_def
  by (intro keeps_rules creations_socket creations_send not_creation)

lemma creations_ipc:
  "unchanged creations (ipc_set K m n up r)" "unchanged creations (ipc_exists K m n)"
proof -
  show "unchanged creations (ipc_set K m n up r)"
    unfolding ipc_set_def set_interface_state_def fallback_system_call_def Let_def
    by (intro keeps_rules creations_request not_creation creations_socket)
  show "unchanged creations (ipc_exists K m n)"
    unfolding ipc_exists_def interface_exists_def ipc_call_def ensure_initialized_def
    by (auto split: option.split intro!: keeps_rules creations_request not_creation)
qed

lemma creations_start: "unchanged creations (Frame_Dispatcher.start K fuel d)"
proof -
  have loop: "unchanged creations (flush_loop K n fd)" for n fd
    by (induction n) (auto intro!: keeps_rules unchanged_call)
  have fl: "unchanged creations (flush K n s)" for n s
    unfolding flush_def by (intro keeps_rules loop)
  have add: "unchanged creations (epoll_fd_add_sock_fd K d fd)" for d fd
    unfolding epoll_fd_add_sock_fd_def by (intro keeps_rules unchanged_call) simp
  show ?thesis
    unfolding start_def by (intro keeps_rules creations_socket fl add)
qed

lemma creations_set_and_start: "unchanged creations (set_and_start K fuel m i rate)"
  unfolding set_and_start_def by (intro keeps_rules creations_ipc creations_start)

lemma creations_one:
  "wp (unix_send K s b) (\<lambda>_ h'. creations h' \<le> Suc (creations h)) h"
  unfolding unix_send_def by (auto simp: wp_rules intro!: wp_call_os_any)

lemma creations_create:
  "wp (ipc_create_vcan K m n) (\<lambda>_ h'. creations h' \<le> Suc (creations h)) h"
proof -
  have registered: "unchanged creations (ensure_registered K c)" for c
    unfolding ensure_registered_def
    by (intro keeps_rules creations_socket creations_send not_creation)
  have request: "wp (send_request K c q) (\<lambda>_ h'. creations h' \<le> Suc (creations t)) t" for c q t
    unfolding send_request_def
    by (auto simp: wp_rules split: prod.splits option.splits sum.splits
        intro!: wp_conseq [OF keepsD [OF registered]] wp_conseq [OF creations_one]
          wp_conseq [OF keepsD [OF creations_socket(1)]] wp_conseq [OF keepsD [OF creations_socket(2)]]
          wp_conseq [OF keepsD [OF creations_socket(3)]])
  show ?thesis
    unfolding ipc_create_vcan_def create_vcan_interface_def ipc_call_def ensure_initialized_def
    by (auto simp: wp_rules split: option.splits prod.splits intro!: wp_conseq [OF request])
qed

lemma ipc_set_threads: "unchanged live_threads (ipc_set K m n up r)"
proof -
  have request: "unchanged live_threads (send_request K c q)" for c q
    unfolding send_request_def ensure_registered_def
    by (intro keeps_rules socket_ops_unchanged unchanged_call) simp_all
  have set: "unchanged live_threads (set_interface_state K c n up r)" for c
    unfolding set_interface_state_def fallback_system_call_def Let_def
    by (intro keeps_rules request unchanged_call) simp_all
  show ?thesis
    unfolding ipc_set_def ipc_call_def ensure_initialized_def
    by (auto split: option.split intro!: keeps_rules set)
qed

subsection \<open>A daemon that answers\<close>

text \<open>
  An environment in which the daemon registers every client, as process 7, and answers every
  request with success, for the witnesses.
\<close>

definition daemon_os :: os where
  "daemon_os = sample_os\<lparr>respond := (\<lambda>h c. case c of
       Posix (Recv fd n) \<Rightarrow>
         (if n = sizeof_ClientRegisterResponse
          then (plain_reply 68)\<lparr>buf := encode_register_response
                 (mk_register_response 0 ''HyCAN_Client_7'')\<rparr>
          else (plain_reply 264)\<lparr>buf := encode_response (mk_query_response 0 True True)\<rparr>)
     | _ \<Rightarrow> respond sample_os h c)\<rparr>"

lemma daemon_os_receive:
  "receive sizeof_ClientRegisterResponse decode_register_response 68
     (encode_register_response (mk_register_response r n)) = Some (mk_register_response r n)"
  "receive sizeof_NetlinkResponse decode_response 264
     (encode_response (mk_query_response r e u)) = Some (mk_query_response r e u)"
  by (simp_all add: receive_def sizeof_defs register_response.dec_enc response.dec_enc)

definition short_channel :: "netlink_client \<Rightarrow> bool" where
  "short_channel c \<longleftrightarrow> (registered c \<longrightarrow> length (client_channel c) < 97)"

lemma daemon_os_connects:
  "length p < 97 \<Longrightarrow> wp (initialize daemon_os (mk_unix_socket p CLIENT))
     (\<lambda>(ok, s) _. ok \<and> connected s \<and> socket_fd s \<noteq> -1) h"
  unfolding initialize_def mk_unix_socket_def setup_address_def
  by (auto simp: wp_rules Let_def daemon_os_def sample_os_def sun_path_size_def intro!: wp_call_os)

lemma daemon_os_takes:
  "connected s \<Longrightarrow> socket_fd s \<noteq> -1 \<Longrightarrow> wp (unix_send daemon_os s b) (\<lambda>n _. \<not> n < 0) h"
  unfolding unix_send_def
  by (auto simp: wp_rules daemon_os_def sample_os_def intro!: wp_call_os)

lemma daemon_os_sends:
  "connected s \<Longrightarrow> socket_fd s \<noteq> -1
     \<Longrightarrow> wp (unix_recv daemon_os s sizeof_ClientRegisterResponse 5000) (\<lambda>r _. r = (68,
           encode_register_response (mk_register_response 0 ''HyCAN_Client_7''))) h"
  "connected s \<Longrightarrow> socket_fd s \<noteq> -1
     \<Longrightarrow> wp (unix_recv daemon_os s sizeof_NetlinkResponse 5000) (\<lambda>r _. r = (264,
           encode_response (mk_query_response 0 True True))) h"
  unfolding unix_recv_def wait_readable_def
  by (auto simp: wp_rules daemon_os_def sample_os_def sizeof_defs intro!: wp_call_os)

lemma channel_7:
  "c_str (client_channel_name (mk_register_response 0 ''HyCAN_Client_7'')) = Some ''HyCAN_Client_7''"
  using c_str_channel_name [of 0 "''HyCAN_Client_7''"] by (simp add: cstr_chars_def)

lemma reg_result_response: "reg_result (mk_register_response r n) = r"
  by (simp add: mk_register_response_def)

lemma daemon_os_registers:
  assumes "short_channel c"
  shows "wp (ensure_registered daemon_os c)
     (\<lambda>(r, c') _. r = Some (Inr ()) \<and> registered c' \<and> short_channel c') h"
proof (cases "registered c")
  case True
  then show ?thesis
    using assms by (simp add: ensure_registered_again wp_return)
next
  case False
  then show ?thesis
    unfolding ensure_registered_def
    by (auto simp: wp_rules daemon_os_receive short_channel_def channel_7 reg_result_response
        split: prod.splits
        intro!: wp_conseq [OF daemon_os_connects] wp_conseq [OF daemon_os_takes]
          wp_conseq [OF daemon_os_sends(1)] wp_call_os_any
          wp_any [where m = "unix_destroy daemon_os s" for s])
qed

lemma daemon_os_answers:
  assumes "short_channel c"
  shows "wp (send_request daemon_os c q)
     (\<lambda>(r, c') _. r = Some (Inr (mk_query_response 0 True True)) \<and> short_channel c') h"
  unfolding send_request_def wp_rules
  by (rule wp_conseq [OF daemon_os_registers [OF assms]])
    (auto simp: wp_rules daemon_os_receive short_channel_def split: prod.splits
      intro!: wp_conseq [OF daemon_os_connects] wp_conseq [OF daemon_os_takes]
        wp_conseq [OF daemon_os_sends(2)]
        wp_any [where m = "unix_destroy daemon_os s" for s])

lemma daemon_os_ipc:
  "wp (ipc_exists daemon_os mk_ipc_manager n) (\<lambda>(r, m) _. r = Some (Inr True)
     \<and> (\<exists>c. ipc_client m = Some c \<and> initialized m \<and> short_channel c)) h"
  "ipc_client m = Some c \<Longrightarrow> initialized m \<Longrightarrow> short_channel c
     \<Longrightarrow> wp (ipc_set daemon_os m n up rate) (\<lambda>(r, _) _. r = Some (Inr ())) h"
  "wp (ipc_set daemon_os mk_ipc_manager n up rate) (\<lambda>(r, _) _. r = Some (Inr ())) h"
proof -
  have fresh: "short_channel mk_netlink_client"
    by (simp add: short_channel_def mk_netlink_client_def)
  show "wp (ipc_exists daemon_os mk_ipc_manager n) (\<lambda>(r, m) _. r = Some (Inr True)
      \<and> (\<exists>c. ipc_client m = Some c \<and> initialized m \<and> short_channel c)) h"
    unfolding ipc_exists_def ipc_call_def ensure_initialized_def mk_ipc_manager_def
      interface_exists_def
    by (auto simp: wp_rules split: prod.splits intro!: wp_conseq [OF daemon_os_answers [OF fresh]])
  show "wp (ipc_set daemon_os mk_ipc_manager n up rate) (\<lambda>(r, _) _. r = Some (Inr ())) h"
    unfolding ipc_set_def ipc_call_def ensure_initialized_def mk_ipc_manager_def
      set_interface_state_def
    by (auto simp: wp_rules Let_def split: prod.splits
        intro!: wp_conseq [OF daemon_os_answers [OF fresh]])
  show "ipc_client m = Some c \<Longrightarrow> initialized m \<Longrightarrow> short_channel c
      \<Longrightarrow> wp (ipc_set daemon_os m n up rate) (\<lambda>(r, _) _. r = Some (Inr ())) h"
    unfolding ipc_set_def ipc_call_def ensure_initialized_def set_interface_state_def
    by (auto simp: wp_rules Let_def split: prod.splits
        intro!: wp_conseq [OF daemon_os_answers])
qed

lemma daemon_os_starts:
  "wp (Frame_Dispatcher.start daemon_os (Suc n) d) (\<lambda>(r, _) _. r = Some (Inr ())) h"
  unfolding start_def ensure_connected_def epoll_fd_add_sock_fd_def flush_def
  by (auto simp: wp_rules Let_def daemon_os_def sample_os_def split: if_splits intro!: wp_call_os)

lemma daemon_os_stops:
  "wp (Frame_Dispatcher.stop daemon_os d) (\<lambda>(r, _) _. r = Inr ()) h"
  unfolding stop_def
  by (auto simp: wp_rules daemon_os_def sample_os_def intro!: wp_call_os)

definition sample_interface :: can_interface where
  "sample_interface = \<lparr>iface_name = ''can0'',
     iface_dispatcher = listening_dispatcher\<lparr>joinable := True\<rparr>,
     iface_sender = mk_can_sender ''can0''\<rparr>"

lemma daemon_os_sets:
  "\<exists>c. ipc_client m = Some c \<and> initialized m \<and> short_channel c
     \<Longrightarrow> wp (ipc_set daemon_os m n up rate) (\<lambda>(r, _) _. r = Some (Inr ())) h"
  using daemon_os_ipc(2) by blast

lemma daemon_os_up:
  "wp (interface_up daemon_os (Suc n) CAN mk_ipc_manager i rate) (\<lambda>(r, _, _) _. r = Some (Inr ())) h"
  unfolding interface_up_def set_and_start_def
  by (auto simp: wp_rules split: prod.splits
      intro!: wp_conseq [OF daemon_os_ipc(1)] wp_conseq [OF daemon_os_sets]
        wp_conseq [OF daemon_os_starts])

lemma daemon_os_down:
  "wp (interface_down daemon_os mk_ipc_manager i) (\<lambda>(r, _, _) _. r = Some (Inr ())) h"
  unfolding interface_down_def
  by (auto simp: wp_rules split: prod.splits
      intro!: wp_conseq [OF daemon_os_ipc(3)] wp_conseq [OF daemon_os_stops])

subsection \<open>Properties\<close>

text \<open>C36: Whatever is done with an interface (brought up and down, sent on, with any outcome), its
  destruction returns every descriptor it opened; but for each of its two sockets that was never
  connected it closes descriptor 0, which it did not open. A program that only receives, or
  only sends, loses its standard input in this way.\<close>

theorem interface_descriptors:
  assumes "streams_open K"
  shows "wp (mk_interface K l name cpu) (\<lambda>r h1. case r of
      Inl _ \<Rightarrow> True
    | Inr i \<Rightarrow> wp (iface_ops K ops m i) (\<lambda>(_, i') h2.
        wp (interface_destroy K i') (\<lambda>_ h3.
          fd_count h3 = (\<lambda>x. fd_count h x - unconnected i' * gain 0 x)) h2) h1) h"
  unfolding mk_interface_def wp_rules
  by (rule wp_conseq [OF wp_mk_dispatcher])
    (auto simp: wp_rules iface_step_def mk_can_sender_def fun_eq_iff split: sum.splits prod.splits
      intro!: wp_conseq [OF iface_ops_step [OF assms]] wp_conseq [OF wp_interface_destroy])

theorem interface_descriptors_witness:
  "wp (mk_interface sample_os False ''can0'' None) (\<lambda>r h1. case r of
      Inl _ \<Rightarrow> True
    | Inr i \<Rightarrow> wp (iface_ops sample_os [Up CAN 2 500000, SendFrame zero_frame, Down]
          mk_ipc_manager i) (\<lambda>(_, i') h2.
        wp (interface_destroy sample_os i') (\<lambda>_ h3.
          fd_count h3 = (\<lambda>x. fd_count [] x - unconnected i' * gain 0 x)) h2) h1) []"
  by (rule interface_descriptors [OF streams_open_sample])

text \<open>When bringing an interface up reports success, its thread has been started and its socket
  is connected.\<close>

theorem up_success_is_listening:
  assumes "streams_open K"
  shows "wp (interface_up K fuel T m i rate) (\<lambda>(r, m', i') _.
    r = Some (Inr ()) \<longrightarrow> joinable (iface_dispatcher i') \<and> 0 < sock_fd (can_sock (iface_dispatcher i'))) h"
  unfolding interface_up_def
  by (auto simp: wp_rules split: prod.splits sum.splits option.splits InterfaceType.split
      intro!: wp_any [where m = "ipc_exists K m n" for m n]
        wp_any [where m = "ipc_create_vcan K m n" for m n]
        wp_conseq [OF set_and_start_outcome [OF assms]])

theorem up_success_is_listening_witness:
  "wp (interface_up daemon_os 1 CAN mk_ipc_manager sample_interface 500000) (\<lambda>(r, m', i') _.
    r = Some (Inr ()) \<and> joinable (iface_dispatcher i') \<and> 0 < sock_fd (can_sock (iface_dispatcher i'))) []"
proof -
  have "streams_open daemon_os"
    by (simp add: streams_open_def daemon_os_def sample_os_def)
  from wp_conj [OF daemon_os_up [of 0] up_success_is_listening [OF this]] show ?thesis
    by (simp add: numeral_eq_Suc) (rule wp_conseq, assumption, auto)
qed

text \<open>A physical CAN interface is never created: bringing one up sends no request to create a
  link, whatever the daemon answers. A virtual one is asked for at most once.\<close>

theorem can_never_created:
  "wp (interface_up K fuel CAN m i rate) (\<lambda>_ h'. creations h' = creations h) h
   \<and> wp (interface_up K fuel VCAN m i rate) (\<lambda>_ h'. creations h' \<le> Suc (creations h)) h"
proof
  have "unchanged creations (interface_up K fuel CAN m i rate)"
    unfolding interface_up_def InterfaceType.case
    by (intro keeps_rules creations_ipc creations_set_and_start)
  then show "wp (interface_up K fuel CAN m i rate) (\<lambda>_ h'. creations h' = creations h) h"
    by (rule keepsD)
  show "wp (interface_up K fuel VCAN m i rate) (\<lambda>_ h'. creations h' \<le> Suc (creations h)) h"
    unfolding interface_up_def
    by (auto simp: wp_rules split: prod.splits sum.splits option.splits
        intro!: wp_conseq [OF keepsD [OF creations_ipc(2)]] wp_conseq [OF creations_create]
          wp_conseq [OF keepsD [OF creations_set_and_start]])
qed

text \<open>When bringing an interface down reports success its thread has been told to stop and has
  been joined; when the daemon or the shell could not bring it down, the thread goes on as it
  was.\<close>

theorem down_success_is_stopped:
  "wp (interface_down K m i) (\<lambda>(r, m', i') h'.
     (r = Some (Inr ()) \<longrightarrow> \<not> joinable (iface_dispatcher i'))
     \<and> live_threads h' - thread_of (iface_dispatcher i') = live_threads h - thread_of (iface_dispatcher i)) h"
proof -
  have stop: "wp (Frame_Dispatcher.stop K d) (\<lambda>(r, d') _. r = Inr () \<longrightarrow> \<not> joinable d') t" for d t
    unfolding stop_def by (auto simp: wp_rules intro!: wp_call_os_any)
  show ?thesis
    unfolding interface_down_def
    by (auto simp: wp_rules owner_step_def split: prod.splits sum.splits option.splits
        intro!: wp_conseq [OF keepsD [OF ipc_set_threads]]
          wp_conseq [OF wp_conj [OF stop wp_stop_step]])
qed

theorem down_success_is_stopped_witness:
  "wp (interface_down daemon_os mk_ipc_manager sample_interface) (\<lambda>(r, m', i') h'.
     r = Some (Inr ()) \<and> \<not> joinable (iface_dispatcher i')
       \<and> live_threads h' - thread_of (iface_dispatcher i') = -1) []"
  by (rule wp_conseq [OF wp_conj [OF daemon_os_down
          down_success_is_stopped [of daemon_os mk_ipc_manager sample_interface "[]"]]])
    (auto simp: thread_of_def sample_interface_def)

end
