(* ===== verification/Daemon_Sessions.thy ===== *)
theory Daemon_Sessions
  imports Netlink_Manager Unix_Socket "HOL-Library.AList"
begin

section \<open>The daemon and its sessions\<close>

text \<open>
  \<open>Daemon/Daemon.hpp\<close>, \<open>Daemon.cpp\<close> and \<open>main.cpp\<close>: registration of clients on the main
  socket, one session with a socket and a worker thread of its own per client, the sweep that
  removes the sessions of dead and idle clients, and shutdown. Console output is not modelled.

  Registration and the sweep hold \<open>sessions_mutex_\<close> throughout, and a worker touches its own
  session and the netlink manager, which has a lock; so a turn of the main loop, of a worker and
  of the sweep is one step each, and the daemon is the interleaving of these steps. The sweep
  joins the worker of a session it removes, that is, it waits for the end of that worker's turn.
  The sessions are a list in the order in which the hash map is iterated; nothing proved depends
  on it.
\<close>

subsection \<open>State\<close>

record client_session =
  session_pid :: "32 word"
  channel_name :: string
  session_socket :: unix_socket
  has_worker :: bool
  last_activity :: int
  session_running :: bool

record daemon =
  running :: bool
  main_socket :: unix_socket
  client_sessions :: "(32 word \<times> client_session) list"
  cleanup_joinable :: bool
  netlink :: netlink_manager

definition cleanup_thread_name :: string where
  "cleanup_thread_name = ''cleanup''"

text \<open>The constructor: the message of the exception it throws, or the object.\<close>

definition mk_daemon :: "os \<Rightarrow> (string, daemon) expected io" where
  "mk_daemon K = do {
     (rc, nm) \<leftarrow> nm_initialize K mk_netlink_manager;
     if rc < 0 then do {
       _ \<leftarrow> nm_cleanup K nm;
       State_Monad.return (Inl ''Failed to initialize netlink manager in daemon'')
     } else do {
       (ok, sock) \<leftarrow> initialize K (mk_unix_socket ''daemon'' SERVER);
       if \<not> ok then do {
         _ \<leftarrow> nm_cleanup K nm;
         _ \<leftarrow> unix_destroy K sock;
         State_Monad.return (Inl ''Failed to initialize main daemon socket'')
       } else do {
         t \<leftarrow> thr K (ThreadStart cleanup_thread_name);
         if rv t \<noteq> 0 then do {
           _ \<leftarrow> nm_cleanup K nm;
           _ \<leftarrow> unix_destroy K sock;
           State_Monad.return (Inl (strerror K (rv t)))
         } else State_Monad.return (Inr
           \<lparr>running = True, main_socket = sock, client_sessions = [], cleanup_joinable = True,
            netlink = nm\<rparr>)
       }
     }
   }"

subsection \<open>Registration\<close>

definition generate_client_channel_name :: "32 word \<Rightarrow> string" where
  "generate_client_channel_name pid = ''HyCAN_Client_'' @ dec_int (sint pid)"

definition mk_session :: "32 word \<Rightarrow> int \<Rightarrow> client_session" where
  "mk_session pid now =
     \<lparr>session_pid = pid, channel_name = generate_client_channel_name pid,
      session_socket = mk_unix_socket (generate_client_channel_name pid) SERVER,
      has_worker = False, last_activity = now, session_running = True\<rparr>"

definition send_registration ::
  "os \<Rightarrow> unix_socket \<Rightarrow> client_session \<Rightarrow> unit io" where
  "send_registration K conn s = do {
     _ \<leftarrow> unix_send K conn (encode_register_response (mk_register_response 0 (channel_name s)));
     State_Monad.return ()
   }"

text \<open>
  A new session whose thread cannot be started stays in the map, without a worker, and gets no
  answer: the exception is caught after the session was stored.
\<close>

definition handle_client_registration ::
  "os \<Rightarrow> daemon \<Rightarrow> ClientRegisterRequest \<Rightarrow> unix_socket \<Rightarrow> daemon io" where
  "handle_client_registration K d req conn = (let pid = client_pid req in
     case map_of (client_sessions d) pid of
       Some s \<Rightarrow> do {
         now \<leftarrow> thr K SteadyClock;
         let s = s\<lparr>last_activity := rv now\<rparr>;
         _ \<leftarrow> send_registration K conn s;
         State_Monad.return (d\<lparr>client_sessions := AList.update pid s (client_sessions d)\<rparr>)
       }
     | None \<Rightarrow> do {
         now \<leftarrow> thr K SteadyClock;
         let s = mk_session pid (rv now);
         (ok, sock) \<leftarrow> initialize K (session_socket s);
         if \<not> ok then do {
           _ \<leftarrow> unix_destroy K sock;
           State_Monad.return d
         } else do {
           let s = s\<lparr>session_socket := sock\<rparr>;
           t \<leftarrow> thr K (ThreadStart (channel_name s));
           if rv t \<noteq> 0 then
             State_Monad.return (d\<lparr>client_sessions := (pid, s) # client_sessions d\<rparr>)
           else do {
             let s = s\<lparr>has_worker := True\<rparr>;
             _ \<leftarrow> send_registration K conn s;
             State_Monad.return (d\<lparr>client_sessions := (pid, s) # client_sessions d\<rparr>)
           }
         }
       })"

text \<open>One turn of the main loop.\<close>

definition run_turn :: "os \<Rightarrow> daemon \<Rightarrow> daemon io" where
  "run_turn K d = do {
     accepted \<leftarrow> unix_accept K (main_socket d) 1000;
     case accepted of
       None \<Rightarrow> State_Monad.return d
     | Some conn \<Rightarrow> do {
         (bytes_received, bytes) \<leftarrow> unix_recv K conn sizeof_ClientRegisterRequest 1000;
         d \<leftarrow> (case receive sizeof_ClientRegisterRequest decode_register_request
                      bytes_received bytes of
                 Some req \<Rightarrow> handle_client_registration K d req conn
               | None \<Rightarrow> State_Monad.return d);
         _ \<leftarrow> unix_destroy K conn;
         State_Monad.return d
       }
   }"

subsection \<open>A session's worker\<close>

text \<open>One turn of a worker; \<open>None\<close> is the undefined read of a name that is not terminated.\<close>

definition worker_turn ::
  "os \<Rightarrow> netlink_manager \<Rightarrow> client_session \<Rightarrow> client_session option io" where
  "worker_turn K nm s = do {
     accepted \<leftarrow> unix_accept K (session_socket s) 1000;
     case accepted of
       None \<Rightarrow> State_Monad.return (Some s)
     | Some conn \<Rightarrow> do {
         (bytes_received, bytes) \<leftarrow> unix_recv K conn sizeof_NetlinkRequest 1000;
         s \<leftarrow> (case receive sizeof_NetlinkRequest decode_request bytes_received bytes of
                 None \<Rightarrow> State_Monad.return (Some s)
               | Some req \<Rightarrow> do {
                   now \<leftarrow> thr K SteadyClock;
                   let s = s\<lparr>last_activity := rv now\<rparr>;
                   response \<leftarrow> process_request K nm req;
                   case response of
                     None \<Rightarrow> State_Monad.return None
                   | Some r \<Rightarrow> do {
                       _ \<leftarrow> unix_send K conn (encode_response r);
                       State_Monad.return (Some s)
                     }
                 });
         _ \<leftarrow> unix_destroy K conn;
         State_Monad.return s
       }
   }"

subsection \<open>The sweep and shutdown\<close>

text \<open>Times are in nanoseconds, the unit of \<open>steady_clock\<close>.\<close>

definition session_timeout :: int where
  "session_timeout = 300 * 1000000000"

definition is_process_alive :: "os \<Rightarrow> 32 word \<Rightarrow> bool io" where
  "is_process_alive K pid = do {
     r \<leftarrow> thr K (Kill (sint pid) 0);
     State_Monad.return (rv r = 0)
   }"

text \<open>Ending a worker: its flag is cleared and its thread joined, if it has one.\<close>

definition end_worker :: "os \<Rightarrow> client_session \<Rightarrow> client_session io" where
  "end_worker K s = do {
     let s = s\<lparr>session_running := False\<rparr>;
     (if has_worker s then do { _ \<leftarrow> thr K (ThreadJoin (channel_name s)); State_Monad.return () }
      else State_Monad.return ());
     State_Monad.return s
   }"

fun sweep ::
  "os \<Rightarrow> int \<Rightarrow> (32 word \<times> client_session) list \<Rightarrow> (32 word \<times> client_session) list io" where
  "sweep K now [] = State_Monad.return []"
| "sweep K now ((pid, s) # ss) = do {
     alive \<leftarrow> is_process_alive K (session_pid s);
     if \<not> alive \<or> now - last_activity s > session_timeout then do {
       s \<leftarrow> end_worker K s;
       _ \<leftarrow> unix_destroy K (session_socket s);
       sweep K now ss
     } else do {
       ss \<leftarrow> sweep K now ss;
       State_Monad.return ((pid, s) # ss)
     }
   }"

text \<open>One turn of the sweeping thread, which sleeps 30 seconds first.\<close>

definition cleanup_turn :: "os \<Rightarrow> daemon \<Rightarrow> daemon io" where
  "cleanup_turn K d = do {
     _ \<leftarrow> thr K (ThreadSleep 30000);
     now \<leftarrow> thr K SteadyClock;
     ss \<leftarrow> sweep K (rv now) (client_sessions d);
     State_Monad.return (d\<lparr>client_sessions := ss\<rparr>)
   }"

fun end_workers ::
  "os \<Rightarrow> (32 word \<times> client_session) list \<Rightarrow> (32 word \<times> client_session) list io" where
  "end_workers K [] = State_Monad.return []"
| "end_workers K ((pid, s) # ss) = do {
     s \<leftarrow> end_worker K s;
     ss \<leftarrow> end_workers K ss;
     State_Monad.return ((pid, s) # ss)
   }"

text \<open>Clearing the map destroys the sessions, that is, their sockets.\<close>

fun destroy_sessions :: "os \<Rightarrow> (32 word \<times> client_session) list \<Rightarrow> unit io" where
  "destroy_sessions K [] = State_Monad.return ()"
| "destroy_sessions K ((pid, s) # ss) = do {
     _ \<leftarrow> unix_destroy K (session_socket s);
     destroy_sessions K ss
   }"

definition cleanup_sessions :: "os \<Rightarrow> daemon \<Rightarrow> daemon io" where
  "cleanup_sessions K d = do {
     ss \<leftarrow> end_workers K (client_sessions d);
     _ \<leftarrow> destroy_sessions K ss;
     State_Monad.return (d\<lparr>client_sessions := []\<rparr>)
   }"

definition daemon_stop :: "os \<Rightarrow> daemon \<Rightarrow> daemon io" where
  "daemon_stop K d = do {
     let d = d\<lparr>running := False\<rparr>;
     (if cleanup_joinable d then do {
        _ \<leftarrow> thr K (ThreadJoin cleanup_thread_name);
        State_Monad.return (d\<lparr>cleanup_joinable := False\<rparr>)
      } else State_Monad.return d)
   }"

text \<open>
  The destructor and then the members': the netlink manager's, the sessions', the main socket's.
\<close>

definition daemon_destroy :: "os \<Rightarrow> daemon \<Rightarrow> unit io" where
  "daemon_destroy K d = do {
     d \<leftarrow> daemon_stop K d;
     _ \<leftarrow> nm_cleanup K (netlink d);
     _ \<leftarrow> destroy_sessions K (client_sessions d);
     unix_destroy K (main_socket d)
   }"

definition signal_handler :: "os \<Rightarrow> int \<Rightarrow> daemon option \<Rightarrow> daemon option io" where
  "signal_handler K sig instance = (case instance of
     Some d \<Rightarrow>
       (if sig = 15 \<or> sig = 2 then do { d \<leftarrow> daemon_stop K d; State_Monad.return (Some d) }
        else State_Monad.return (Some d))
   | None \<Rightarrow> State_Monad.return None)"

text \<open>
  The main loop, here without the other threads, when SIGTERM arrives after \<open>turns\<close> turns and is
  handled between two of them; the flag the handler has cleared then ends the loop. At the end of
  \<open>run\<close> the sessions are cleaned up.
\<close>

fun run_loop :: "os \<Rightarrow> nat \<Rightarrow> daemon \<Rightarrow> daemon io" where
  "run_loop K 0 d = do {
     handled \<leftarrow> signal_handler K 15 (Some d);
     State_Monad.return (case handled of Some d \<Rightarrow> d | None \<Rightarrow> d)
   }"
| "run_loop K (Suc turns) d =
     (if running d then do { d \<leftarrow> run_turn K d; run_loop K turns d } else State_Monad.return d)"

definition run :: "os \<Rightarrow> nat \<Rightarrow> daemon \<Rightarrow> (int \<times> daemon) io" where
  "run K turns d = do {
     e \<leftarrow> thr K Geteuid;
     if rv e \<noteq> 0 then State_Monad.return (1, d)
     else do {
       d \<leftarrow> run_loop K turns d;
       d \<leftarrow> cleanup_sessions K d;
       State_Monad.return (0, d)
     }
   }"

definition main_program :: "os \<Rightarrow> nat \<Rightarrow> int io" where
  "main_program K turns = do {
     made \<leftarrow> mk_daemon K;
     case made of
       Inl e \<Rightarrow> State_Monad.return 1
     | Inr d \<Rightarrow> do {
         (exit_code, d) \<leftarrow> run K turns d;
         _ \<leftarrow> daemon_destroy K d;
         State_Monad.return exit_code
       }
   }"

subsection \<open>The daemon as a whole\<close>

text \<open>
  One step of any thread: a turn of the main loop, of a worker or of the sweep, or a signal,
  which clears the flag all of them test.
\<close>

inductive daemon_step :: "os \<Rightarrow> daemon \<times> history \<Rightarrow> daemon \<times> history \<Rightarrow> bool" for K where
  main_step: "running d \<Longrightarrow> run_state (run_turn K d) h = (d', h')
    \<Longrightarrow> daemon_step K (d, h) (d', h')"
| worker_step: "running d \<Longrightarrow> map_of (client_sessions d) pid = Some s \<Longrightarrow> has_worker s
    \<Longrightarrow> session_running s \<Longrightarrow> run_state (worker_turn K (netlink d) s) h = (Some s', h')
    \<Longrightarrow> daemon_step K (d, h)
          (d\<lparr>client_sessions := AList.update pid s' (client_sessions d)\<rparr>, h')"
| sweep_step: "running d \<Longrightarrow> cleanup_joinable d \<Longrightarrow> run_state (cleanup_turn K d) h = (d', h')
    \<Longrightarrow> daemon_step K (d, h) (d', h')"
| signal_step: "daemon_step K (d, h) (d\<lparr>running := False\<rparr>, h)"

inductive_cases daemon_stepE: "daemon_step K x y"

inductive daemon_reaches :: "os \<Rightarrow> daemon \<times> history \<Rightarrow> daemon \<times> history \<Rightarrow> bool" for K where
  reach_refl: "daemon_reaches K x x"
| reach_step: "daemon_reaches K x y \<Longrightarrow> daemon_step K y z \<Longrightarrow> daemon_reaches K x z"

subsection \<open>Invariants\<close>

text \<open>
  A session is filed under its process, has the channel of that process, and owns a listening
  socket on that channel's path.
\<close>

definition session_wf :: "32 word \<Rightarrow> client_session \<Rightarrow> bool" where
  "session_wf pid s \<longleftrightarrow> session_pid s = pid \<and> channel_name s = generate_client_channel_name pid
     \<and> socket_path (session_socket s) = ''/run/hycan_'' @ generate_client_channel_name pid
     \<and> mode (session_socket s) = SERVER \<and> connected (session_socket s)
     \<and> socket_fd (session_socket s) \<noteq> -1 \<and> session_running s"

definition sessions_wf :: "(32 word \<times> client_session) list \<Rightarrow> bool" where
  "sessions_wf ss \<longleftrightarrow> distinct (map fst ss) \<and> (\<forall>(pid, s) \<in> set ss. session_wf pid s)"

definition session_fds :: "(32 word \<times> client_session) list \<Rightarrow> int \<Rightarrow> int" where
  "session_fds ss x = (\<Sum>(pid, s) \<leftarrow> ss. owned (socket_fd (session_socket s)) x)"

lemma session_fds_simps [simp]:
  "session_fds [] x = 0"
  "session_fds ((pid, s) # ss) x = owned (socket_fd (session_socket s)) x + session_fds ss x"
  by (simp_all add: session_fds_def)

lemma session_wf_activity [simp]:
  "session_wf pid (s\<lparr>last_activity := t\<rparr>) = session_wf pid s"
  "session_wf pid (s\<lparr>has_worker := b\<rparr>) = session_wf pid s"
  by (simp_all add: session_wf_def)

lemma sessions_wf_lookup: "sessions_wf ss \<Longrightarrow> map_of ss pid = Some s \<Longrightarrow> session_wf pid s"
  by (auto simp: sessions_wf_def dest: map_of_SomeD)

lemma distinct_map_of: "distinct (map fst ss) \<Longrightarrow> map_of ss k = Some v \<longleftrightarrow> (k, v) \<in> set ss"
  by simp

lemma sessions_wf_alt:
  "sessions_wf ss \<longleftrightarrow> distinct (map fst ss)
     \<and> (\<forall>pid s. map_of ss pid = Some s \<longrightarrow> session_wf pid s)"
  by (auto simp: sessions_wf_def)

lemma sessions_wf_update:
  "sessions_wf ss \<Longrightarrow> session_wf pid s \<Longrightarrow> sessions_wf (AList.update pid s ss)"
  by (auto simp: sessions_wf_alt distinct_update update_conv' split: if_splits)

lemma session_fds_update:
  assumes "map_of ss pid = Some s" and "session_socket s' = session_socket s"
  shows "session_fds (AList.update pid s' ss) = session_fds ss"
  using assms by (induction ss) (auto simp: fun_eq_iff split: if_splits)

text \<open>
  What a piece of the daemon's work does: the sessions stay well-formed, the descriptors opened
  and closed are exactly those of the sessions made and removed, and nothing else of the daemon
  changes.
\<close>

definition sessions_step :: "daemon \<Rightarrow> history \<Rightarrow> daemon \<Rightarrow> history \<Rightarrow> bool" where
  "sessions_step d h d' h' \<longleftrightarrow> sessions_wf (client_sessions d')
     \<and> d' = d\<lparr>client_sessions := client_sessions d'\<rparr>
     \<and> fd_count h' = (\<lambda>x. fd_count h x - session_fds (client_sessions d) x
          + session_fds (client_sessions d') x)"

lemma keeps_send_registration [keeps_rules]: "keeps fd_delta (send_registration K conn s)"
  unfolding send_registration_def by (intro keeps_rules)

lemma wp_thr_fds: "wp (thr K c) (\<lambda>_ h'. fd_count h' = fd_count h) h"
  by (auto intro!: wp_call_os_any simp: fun_eq_iff split: thread_call.splits)

lemma wp_initialize_server:
  "wp (initialize K (mk_unix_socket p SERVER))
     (\<lambda>(ok, s') h'. fd_count h' = (\<lambda>x. fd_count h x + owned (socket_fd s') x)
        \<and> ok = (socket_fd s' \<noteq> -1) \<and> (ok \<longrightarrow> connected s')
        \<and> mode s' = SERVER \<and> socket_path s' = ''/run/hycan_'' @ p) h"
  by (rule wp_conseq [OF wp_initialize]) (auto simp: mk_unix_socket_def)

lemma wp_registration:
  assumes "sessions_wf (client_sessions d)"
  shows "wp (handle_client_registration K d req conn) (\<lambda>d' h'. sessions_step d h d' h') h"
proof (cases "map_of (client_sessions d) (client_pid req)")
  case (Some s)
  then show ?thesis
    using assms sessions_wf_lookup [OF assms Some]
    by (auto simp: handle_client_registration_def wp_rules Let_def sessions_step_def
        sessions_wf_update session_fds_update [OF Some]
        intro!: wp_conseq [OF wp_thr_fds] wp_conseq [OF keepsD [OF keeps_send_registration]])
next
  case None
  then have new: "client_pid req \<notin> set (map fst (client_sessions d))"
    by (simp add: map_of_eq_None_iff)
  then show ?thesis
    using assms None
    by (auto simp: handle_client_registration_def mk_session_def wp_rules Let_def
        sessions_step_def sessions_wf_def session_wf_def fun_eq_iff split: prod.splits
        intro!: wp_conseq [OF wp_thr_fds] wp_conseq [OF keepsD [OF keeps_send_registration]]
          wp_conseq [OF wp_initialize_server] wp_conseq [OF wp_unix_destroy])
qed

lemma wp_accept:
  "wp (unix_accept K s t) (\<lambda>r h'. fd_count h' = (\<lambda>x. fd_count h x
      + (case r of None \<Rightarrow> 0 | Some c \<Rightarrow> owned (socket_fd c) x))) h"
  by (rule wp_conseq [OF wp_unix_accept]) simp

lemma wp_run_turn:
  assumes "sessions_wf (client_sessions d)"
  shows "wp (run_turn K d) (\<lambda>d' h'. sessions_step d h d' h') h"
  unfolding run_turn_def
  by (auto simp: wp_rules sessions_step_def assms split: option.split prod.split
      intro!: wp_conseq [OF wp_accept] wp_conseq [OF keepsD [OF keeps_unix_recv]]
        wp_conseq [OF wp_registration [OF assms]] wp_conseq [OF wp_unix_destroy],
      auto simp: fun_eq_iff)

text \<open>A turn of a worker changes the time of the last activity only.\<close>

definition same_session :: "client_session \<Rightarrow> client_session \<Rightarrow> bool" where
  "same_session s s' \<longleftrightarrow> s'\<lparr>last_activity := 0\<rparr> = s\<lparr>last_activity := 0\<rparr>"

lemma same_session_simps [simp]:
  "same_session s s" "same_session s (s\<lparr>last_activity := t\<rparr>)"
  by (simp_all add: same_session_def)

lemma same_session_wf:
  assumes "same_session s s'"
  shows "session_wf pid s' = session_wf pid s" and "session_socket s' = session_socket s"
    and "channel_name s' = channel_name s"
proof -
  have *: "session_wf pid (s'\<lparr>last_activity := 0\<rparr>) = session_wf pid (s\<lparr>last_activity := 0\<rparr>)"
    "session_socket (s'\<lparr>last_activity := 0\<rparr>) = session_socket (s\<lparr>last_activity := 0\<rparr>)"
    "channel_name (s'\<lparr>last_activity := 0\<rparr>) = channel_name (s\<lparr>last_activity := 0\<rparr>)"
    using assms by (simp_all only: same_session_def)
  then show "session_wf pid s' = session_wf pid s" and "session_socket s' = session_socket s"
    and "channel_name s' = channel_name s"
    by simp_all
qed

lemma wp_worker_turn:
  "wp (worker_turn K nm s) (\<lambda>r h'. case r of None \<Rightarrow> True
     | Some s' \<Rightarrow> same_session s s' \<and> fd_count h' = fd_count h) h"
  unfolding worker_turn_def
  by (auto simp: wp_rules Let_def split: option.split prod.split
      intro!: wp_conseq [OF wp_accept] wp_conseq [OF keepsD [OF keeps_unix_recv]]
        wp_conseq [OF wp_thr_fds] wp_conseq [OF keepsD [OF process_request_keeps_fds]]
        wp_conseq [OF keepsD [OF keeps_unix_send]] wp_conseq [OF wp_unix_destroy])

lemma wp_end_worker:
  "wp (end_worker K s) (\<lambda>s' h'. s' = s\<lparr>session_running := False\<rparr> \<and> fd_count h' = fd_count h) h"
  unfolding end_worker_def
  by (auto simp: wp_rules Let_def intro!: wp_conseq [OF wp_thr_fds])

lemma wp_sweep:
  "wp (sweep K now ss) (\<lambda>ss' h'. subseq ss' ss
     \<and> fd_count h' = (\<lambda>x. fd_count h x - session_fds ss x + session_fds ss' x)) h"
proof (induction ss arbitrary: h)
  case Nil
  then show ?case by (simp add: wp_return)
next
  case (Cons p ss)
  show ?case
    by (cases p)
      (auto simp: wp_rules is_process_alive_def
        intro!: wp_conseq [OF wp_thr_fds] wp_conseq [OF wp_end_worker]
          wp_conseq [OF wp_unix_destroy] wp_conseq [OF Cons.IH],
        auto simp: fun_eq_iff)
qed

lemma sessions_wf_subseq: "subseq ss' ss \<Longrightarrow> sessions_wf ss \<Longrightarrow> sessions_wf ss'"
proof -
  assume sub: "subseq ss' ss" and wf: "sessions_wf ss"
  have "set ss' \<subseteq> set ss"
    using sub by (metis set_nths_subset subseq_conv_nths)
  moreover have "distinct (map fst ss')"
    using sub wf by (auto simp: sessions_wf_def subseq_conv_nths simp flip: nths_map
        intro: distinct_nthsI)
  ultimately show ?thesis
    using wf by (auto simp: sessions_wf_def)
qed

lemma wp_cleanup_turn:
  assumes "sessions_wf (client_sessions d)"
  shows "wp (cleanup_turn K d) (\<lambda>d' h'. sessions_step d h d' h') h"
  unfolding cleanup_turn_def
  by (auto simp: wp_rules sessions_step_def assms sessions_wf_subseq [OF _ assms]
      intro!: wp_conseq [OF wp_thr_fds] wp_conseq [OF wp_sweep])

lemma wp_end_workers:
  "wp (end_workers K ss) (\<lambda>ss' h'. fd_count h' = fd_count h
     \<and> (\<forall>x. session_fds ss' x = session_fds ss x)) h"
proof (induction ss arbitrary: h)
  case Nil
  then show ?case by (simp add: wp_return)
next
  case (Cons p ss)
  show ?case
    by (cases p)
      (auto simp: wp_rules intro!: wp_conseq [OF wp_end_worker] wp_conseq [OF Cons.IH])
qed

lemma wp_destroy_sessions:
  "wp (destroy_sessions K ss) (\<lambda>_ h'. fd_count h' = (\<lambda>x. fd_count h x - session_fds ss x)) h"
proof (induction ss arbitrary: h)
  case Nil
  then show ?case by (simp add: wp_return)
next
  case (Cons p ss)
  show ?case
    by (cases p)
      (auto simp: wp_rules fun_eq_iff intro!: wp_conseq [OF wp_unix_destroy] wp_conseq [OF Cons.IH])
qed

lemma wp_cleanup_sessions:
  "wp (cleanup_sessions K d) (\<lambda>d' h'. sessions_step d h d' h' \<and> client_sessions d' = []) h"
  unfolding cleanup_sessions_def
  by (auto simp: wp_rules sessions_step_def sessions_wf_def
      intro!: wp_conseq [OF wp_end_workers] wp_conseq [OF wp_destroy_sessions])

subsection \<open>What socket and thread calls do not touch\<close>

text \<open>
  A view of the history that ignores socket and thread calls is left alone by everything the
  daemon does but its netlink work. The three ledgers of netlink handles are such views.
\<close>

locale socket_blind =
  fixes view :: "history \<Rightarrow> 'b"
  assumes posix_blind: "view ((Posix p, r) # h) = view h"
    and thread_blind: "view ((Thr t, r) # h) = view h"
begin

lemma blind_thr: "unchanged view (thr K t)"
  by (intro unchanged_call thread_blind)

lemma blind_sys: "unchanged view (sys K p)"
  by (intro unchanged_call posix_blind)

lemmas blind_socket = socket_ops_unchanged [where f = view, OF posix_blind]

lemma blind_accept: "unchanged view (unix_accept K s t)"
  unfolding unix_accept_def wait_readable_def by (intro keeps_rules blind_sys)

lemma blind_registration: "unchanged view (handle_client_registration K d req conn)"
  unfolding handle_client_registration_def send_registration_def
  by (intro keeps_rules blind_socket blind_thr)

lemma blind_run_turn: "unchanged view (run_turn K d)"
  unfolding run_turn_def by (intro keeps_rules blind_socket blind_accept blind_registration)

lemma blind_worker_turn:
  "(\<And>req. unchanged view (process_request K nm req)) \<Longrightarrow> unchanged view (worker_turn K nm s)"
  unfolding worker_turn_def by (intro keeps_rules blind_socket blind_accept blind_thr)

lemma blind_end_worker: "unchanged view (end_worker K s)"
  unfolding end_worker_def by (intro keeps_rules blind_thr)

lemma blind_sweep: "unchanged view (sweep K now ss)"
proof (induction ss)
  case Nil
  then show ?case by (auto intro: keeps_rules)
next
  case (Cons p ss)
  show ?case
    by (cases p) (auto simp: is_process_alive_def
        intro!: keeps_rules blind_thr blind_end_worker blind_socket Cons.IH)
qed

lemma blind_cleanup_turn: "unchanged view (cleanup_turn K d)"
  unfolding cleanup_turn_def by (intro keeps_rules blind_thr blind_sweep)

lemma blind_sessions:
  "unchanged view (end_workers K ss)" "unchanged view (destroy_sessions K ss)"
proof -
  show "unchanged view (end_workers K ss)"
    by (induction ss rule: end_workers.induct) (auto intro!: keeps_rules blind_end_worker)
  show "unchanged view (destroy_sessions K ss)"
    by (induction ss rule: destroy_sessions.induct) (auto intro!: keeps_rules blind_socket)
qed

lemma blind_shutdown:
  "unchanged view (cleanup_sessions K d)" "unchanged view (daemon_stop K d)"
  unfolding cleanup_sessions_def daemon_stop_def
  by (intro keeps_rules blind_sessions blind_thr)+

lemma blind_run_loop: "unchanged view (run_loop K n d)"
  by (induction n arbitrary: d)
    (auto simp: signal_handler_def intro!: keeps_rules blind_run_turn blind_shutdown)

lemma blind_run: "unchanged view (run K n d)"
  unfolding run_def by (intro keeps_rules blind_thr blind_run_loop blind_shutdown)

end

interpretation links: socket_blind link_refs
  by unfold_locales (auto simp: fun_eq_iff)

interpretation socks: socket_blind nl_socks
  by unfold_locales (auto simp: fun_eq_iff)

interpretation caches: socket_blind nl_caches
  by unfold_locales (auto simp: fun_eq_iff)

text \<open>The netlink handles of the whole daemon.\<close>

definition same_netlink :: "history \<Rightarrow> history \<Rightarrow> bool" where
  "same_netlink h h' \<longleftrightarrow> link_refs h' = link_refs h \<and> nl_socks h' = nl_socks h
     \<and> nl_caches h' = nl_caches h"

lemma same_netlinkI:
  "unchanged link_refs m \<Longrightarrow> unchanged nl_socks m \<Longrightarrow> unchanged nl_caches m
     \<Longrightarrow> wp m (\<lambda>_ h'. same_netlink h h') h"
  unfolding same_netlink_def by (intro wp_conj keepsD)

lemma same_netlink_refl [simp]: "same_netlink h h"
  and same_netlink_trans: "same_netlink h h' \<Longrightarrow> same_netlink h' h'' \<Longrightarrow> same_netlink h h''"
  by (simp_all add: same_netlink_def)

lemma run_turn_netlink: "wp (run_turn K d) (\<lambda>_ h'. same_netlink h h') h"
  by (intro same_netlinkI links.blind_run_turn socks.blind_run_turn caches.blind_run_turn)

lemma worker_turn_netlink: "wp (worker_turn K nm s) (\<lambda>_ h'. same_netlink h h') h"
  by (intro same_netlinkI links.blind_worker_turn socks.blind_worker_turn
      caches.blind_worker_turn manager.process_keeps)
    (simp_all add: resource_ledgers_def)

lemma cleanup_turn_netlink: "wp (cleanup_turn K d) (\<lambda>_ h'. same_netlink h h') h"
  by (intro same_netlinkI links.blind_cleanup_turn socks.blind_cleanup_turn
      caches.blind_cleanup_turn)

subsection \<open>Reachable states\<close>

text \<open>What one step, of whichever thread, preserves.\<close>

lemma daemon_turn_sessions:
  assumes "wp m (\<lambda>d' h'. sessions_step d h d' h') h" and "wp m (\<lambda>_ h'. same_netlink h h') h"
    and "run_state m h = (d', h')"
  shows "sessions_wf (client_sessions d') \<and> main_socket d' = main_socket d \<and> netlink d' = netlink d
     \<and> cleanup_joinable d' = cleanup_joinable d \<and> same_netlink h h'
     \<and> fd_count h' = (\<lambda>x. fd_count h x - session_fds (client_sessions d) x
          + session_fds (client_sessions d') x)"
proof -
  have "sessions_step d h d' h'" and n: "same_netlink h h'"
    using wp_run [OF assms(1,3)] wp_run [OF assms(2,3)] by auto
  then have "d' = d\<lparr>client_sessions := client_sessions d'\<rparr>" and
    s: "sessions_wf (client_sessions d')" "fd_count h' = (\<lambda>x. fd_count h x
        - session_fds (client_sessions d) x + session_fds (client_sessions d') x)"
    by (auto simp: sessions_step_def)
  from this(1) have "main_socket d' = main_socket d" "netlink d' = netlink d"
      "cleanup_joinable d' = cleanup_joinable d"
    by (metis daemon.ext_inject daemon.surjective daemon.update_convs(3))+
  with s n show ?thesis by simp
qed

lemma daemon_step_sessions:
  assumes "daemon_step K (d, h) (d', h')" and "sessions_wf (client_sessions d)"
  shows "sessions_wf (client_sessions d') \<and> main_socket d' = main_socket d \<and> netlink d' = netlink d
     \<and> cleanup_joinable d' = cleanup_joinable d \<and> same_netlink h h'
     \<and> fd_count h' = (\<lambda>x. fd_count h x - session_fds (client_sessions d) x
          + session_fds (client_sessions d') x)"
proof -
  note turn = daemon_turn_sessions [of _ d h d' h']
  from assms(1) show ?thesis
  proof cases
    case (main_step)
    then show ?thesis
      using turn [OF wp_run_turn [OF assms(2)] run_turn_netlink] by simp
  next
    case (worker_step pid s s')
    have s': "same_session s s'" and fd: "fd_count h' = fd_count h" and n: "same_netlink h h'"
      using wp_run [OF wp_worker_turn worker_step(6)] wp_run [OF worker_turn_netlink worker_step(6)]
      by auto
    have "sessions_wf (client_sessions d')"
      using sessions_wf_update [OF assms(2)] sessions_wf_lookup [OF assms(2) worker_step(3)]
        same_session_wf(1) [OF s'] worker_step(1) by auto
    then show ?thesis
      using worker_step(1) fd n session_fds_update [OF worker_step(3) same_session_wf(2) [OF s']]
      by (simp add: fun_eq_iff)
  next
    case sweep_step
    then show ?thesis
      using turn [OF wp_cleanup_turn [OF assms(2)] cleanup_turn_netlink] by simp
  next
    case signal_step
    then show ?thesis using assms(2) by simp
  qed
qed

lemma daemon_reaches_sessions:
  assumes "daemon_reaches K x y" and "sessions_wf (client_sessions (fst x))"
  shows "sessions_wf (client_sessions (fst y)) \<and> main_socket (fst y) = main_socket (fst x)
     \<and> netlink (fst y) = netlink (fst x) \<and> cleanup_joinable (fst y) = cleanup_joinable (fst x)
     \<and> same_netlink (snd x) (snd y)
     \<and> fd_count (snd y) = (\<lambda>z. fd_count (snd x) z - session_fds (client_sessions (fst x)) z
          + session_fds (client_sessions (fst y)) z)"
  using assms
proof (induction rule: daemon_reaches.induct)
  case (reach_refl x)
  then show ?case by simp
next
  case (reach_step x y z)
  then show ?case
    using daemon_step_sessions [of K "fst y" "snd y" "fst z" "snd z"]
    by (auto simp: fun_eq_iff intro: same_netlink_trans)
qed

subsection \<open>Start and end\<close>

text \<open>What the manager holds, in the two ledgers of its handles.\<close>

definition nm_holds :: "netlink_manager \<Rightarrow> history \<Rightarrow> history \<Rightarrow> bool" where
  "nm_holds nm h h' \<longleftrightarrow> link_refs h' = link_refs h
     \<and> nl_socks h' = (\<lambda>x. nl_socks h x + (if nl_socket nm = 0 then 0 else gain (nl_socket nm) x))
     \<and> nl_caches h' = (\<lambda>x. nl_caches h x + (if link_cache nm = 0 then 0 else gain (link_cache nm) x))"

lemma nm_holds_later: "nm_holds nm h h' \<Longrightarrow> same_netlink h' h'' \<Longrightarrow> nm_holds nm h h''"
  by (simp add: nm_holds_def same_netlink_def)

lemma wp_nm_initialize:
  "wp (nm_initialize K mk_netlink_manager)
     (\<lambda>(rc, nm) h'. nm_holds nm h h' \<and> fd_count h' = fd_count h) h"
  unfolding nm_initialize_def mk_netlink_manager_def nm_holds_def
  by (auto simp: wp_rules Let_def fun_eq_iff intro!: wp_call_os_any)

lemma wp_nm_cleanup:
  "wp (nm_cleanup K nm) (\<lambda>_ h'. (\<forall>h0. nm_holds nm h0 h \<longrightarrow> same_netlink h0 h')
     \<and> fd_count h' = fd_count h) h"
  unfolding nm_cleanup_def nm_holds_def same_netlink_def
  by (auto simp: wp_rules fun_eq_iff intro!: wp_call_os_any)

lemma blind_initialize: "wp (initialize K s) (\<lambda>_ h'. same_netlink h h') h"
  and blind_destroy: "wp (unix_destroy K s) (\<lambda>_ h'. same_netlink h h') h"
  and blind_thread: "wp (thr K t) (\<lambda>_ h'. same_netlink h h') h"
  by (intro same_netlinkI links.blind_socket socks.blind_socket caches.blind_socket
      links.blind_thr socks.blind_thr caches.blind_thr)+

text \<open>What the daemon holds when nothing but its own handles is added to a history.\<close>

definition daemon_holds :: "daemon \<Rightarrow> history \<Rightarrow> history \<Rightarrow> bool" where
  "daemon_holds d h h' \<longleftrightarrow> sessions_wf (client_sessions d) \<and> nm_holds (netlink d) h h'
     \<and> fd_count h' = (\<lambda>x. fd_count h x + owned (socket_fd (main_socket d)) x
          + session_fds (client_sessions d) x)"

text \<open>What is left when it has released everything.\<close>

definition all_released :: "history \<Rightarrow> history \<Rightarrow> bool" where
  "all_released h h' \<longleftrightarrow> fd_count h' = fd_count h \<and> same_netlink h h'"

lemma wp_mk_daemon:
  "wp (mk_daemon K) (\<lambda>r h'. case r of
       Inl _ \<Rightarrow> all_released h h'
     | Inr d \<Rightarrow> daemon_holds d h h' \<and> client_sessions d = [] \<and> running d
         \<and> cleanup_joinable d) h"
  unfolding mk_daemon_def
  by (auto simp: wp_rules all_released_def daemon_holds_def sessions_wf_def
        fun_eq_iff [of "session_fds []"] split: prod.split elim: nm_holds_later same_netlink_trans
      intro!: wp_conseq [OF wp_nm_initialize] wp_conseq [OF wp_nm_cleanup]
        wp_conseq [OF wp_conj [OF wp_initialize_server blind_initialize]]
        wp_conseq [OF wp_conj [OF wp_unix_destroy blind_destroy]]
        wp_conseq [OF wp_conj [OF wp_thr_fds blind_thread]])
    (meson nm_holds_later same_netlink_trans)+

lemma daemon_holds_step:
  assumes "daemon_holds d h h1" and "sessions_step d h1 d' h2" and "same_netlink h1 h2"
  shows "daemon_holds d' h h2"
proof -
  have d': "d' = d\<lparr>client_sessions := client_sessions d'\<rparr>"
    using assms(2) by (simp add: sessions_step_def)
  have "main_socket d' = main_socket d" "netlink d' = netlink d"
    by (subst d', simp)+
  then show ?thesis
    using assms nm_holds_later by (auto simp: daemon_holds_def sessions_step_def fun_eq_iff)
qed

lemma daemon_holds_wf: "daemon_holds d h h1 \<Longrightarrow> sessions_wf (client_sessions d)"
  by (simp add: daemon_holds_def)

lemma daemon_holds_quiet:
  "daemon_holds d h h1 \<Longrightarrow> fd_count t = fd_count h1 \<Longrightarrow> same_netlink h1 t \<Longrightarrow> daemon_holds d h t"
  by (auto simp: daemon_holds_def intro: nm_holds_later)

lemma cleanup_sessions_holds:
  "daemon_holds d h h1 \<Longrightarrow> wp (cleanup_sessions K d)
     (\<lambda>d' h'. daemon_holds d' h h' \<and> client_sessions d' = []) h1"
  by (rule wp_conseq [OF wp_conj [OF wp_cleanup_sessions same_netlinkI [OF links.blind_shutdown(1)
          socks.blind_shutdown(1) caches.blind_shutdown(1)]]])
    (auto intro: daemon_holds_step)

lemma daemon_stop_holds:
  "daemon_holds d h h1 \<Longrightarrow> wp (daemon_stop K d)
     (\<lambda>d' h'. daemon_holds d' h h' \<and> client_sessions d' = client_sessions d \<and> \<not> running d'
        \<and> \<not> cleanup_joinable d') h1"
  unfolding daemon_stop_def
  by (auto simp: wp_rules Let_def daemon_holds_def elim: nm_holds_later
      intro!: wp_conseq [OF wp_conj [OF wp_thr_fds blind_thread]])

lemma run_turn_holds:
  "daemon_holds d h h1 \<Longrightarrow> wp (run_turn K d) (\<lambda>d' h'. daemon_holds d' h h') h1"
  by (rule wp_conseq [OF wp_conj [OF wp_run_turn [OF daemon_holds_wf] run_turn_netlink]])
    (auto intro: daemon_holds_step)

lemma run_loop_holds:
  "daemon_holds d h h1 \<Longrightarrow> wp (run_loop K n d) (\<lambda>d' h'. daemon_holds d' h h') h1"
  by (induction n arbitrary: d h1)
    (auto simp: wp_rules signal_handler_def
      intro: wp_conseq [OF run_turn_holds] wp_conseq [OF daemon_stop_holds])

lemma daemon_destroy_releases:
  "daemon_holds d h h1 \<Longrightarrow> wp (daemon_destroy K d) (\<lambda>_ h'. all_released h h') h1"
  unfolding daemon_destroy_def wp_rules
  by (rule wp_conseq [OF daemon_stop_holds], assumption)
    (auto simp: daemon_holds_def all_released_def
      intro!: wp_conseq [OF wp_nm_cleanup]
        wp_conseq [OF wp_conj [OF wp_unix_destroy blind_destroy]]
        wp_conseq [OF wp_conj [OF wp_destroy_sessions same_netlinkI [OF links.blind_sessions(2)
          socks.blind_sessions(2) caches.blind_sessions(2)]]],
      meson same_netlink_trans)

lemma run_holds:
  "daemon_holds d h h1 \<Longrightarrow> wp (run K n d) (\<lambda>(rc, d') h'. daemon_holds d' h h' \<and> rc \<in> {0, 1}) h1"
  unfolding run_def
  by (auto simp: wp_rules
      intro!: wp_conseq [OF wp_conj [OF wp_thr_fds blind_thread]] wp_conseq [OF run_loop_holds]
        wp_conseq [OF cleanup_sessions_holds])
    (blast intro: daemon_holds_quiet)+

subsection \<open>Names of channels\<close>

lemma length_channel_name: "length (generate_client_channel_name pid) \<le> 24"
proof -
  have "\<bar>sint pid\<bar> < 10 ^ 10"
    using sint_range_size [of pid] by (simp add: word_size abs_if)
  then have "length (dec_int (sint pid)) \<le> Suc 10"
    by (rule length_dec_int) simp
  then show ?thesis
    by (simp add: generate_client_channel_name_def)
qed

lemma channel_name_no_NUL: "NUL \<notin> set (generate_client_channel_name pid)"
  using dec_int_no_NUL by (simp add: generate_client_channel_name_def)

lemma channel_name_inject:
  "generate_client_channel_name p = generate_client_channel_name q \<longleftrightarrow> p = q"
  by (auto simp: generate_client_channel_name_def dec_int_inject intro: signed_word_eqI)

text \<open>A started daemon in the sample environment, and one turn of its main loop.\<close>

lemma sample_daemon:
  "\<exists>d0 h1 d h. run_state (mk_daemon sample_os) [] = (Inr d0, h1)
     \<and> run_state (run_turn sample_os d0) h1 = (d, h)
     \<and> daemon_reaches sample_os (d0, h1) (d, h) \<and> client_sessions d = []"
proof -
  have ok: "\<exists>d0 h1. run_state (mk_daemon sample_os) [] = (Inr d0, h1)"
    by (simp add: mk_daemon_def nm_initialize_def mk_netlink_manager_def initialize_def
        mk_unix_socket_def setup_address_def sun_path_size_def sample_os_def Let_def)
  then obtain d0 h1 where 0: "run_state (mk_daemon sample_os) [] = (Inr d0, h1)"
    by blast
  have made: "running d0" "client_sessions d0 = []"
    using wp_run [OF wp_mk_daemon 0] by simp_all
  obtain d h where 1: "run_state (run_turn sample_os d0) h1 = (d, h)"
    by force
  have "client_sessions d = []"
    using 1 made by (auto simp: run_turn_def unix_accept_def wait_readable_def unix_recv_def
        receive_def sizeof_defs sample_os_def unix_destroy_def unix_close_def split: if_splits)
  moreover have "daemon_reaches sample_os (d0, h1) (d, h)"
    by (rule reach_step [OF reach_refl main_step [OF made(1) 1]])
  ultimately show ?thesis
    using 0 1 by blast
qed

subsection \<open>Properties\<close>

text \<open>C26: For every process identifier, negative ones included, the channel's name fits into the
  registration response complete, its path fits into a socket address complete, and different
  processes get different names; so the client, which reads the name from the response, dials
  exactly the path its session listens on.\<close>

theorem channel_names_fit:
  "c_str (client_channel_name (mk_register_response 0 (generate_client_channel_name pid)))
       = Some (generate_client_channel_name pid)
   \<and> setup_address (mk_unix_socket (generate_client_channel_name pid) SERVER)
       = Some (''/run/hycan_'' @ generate_client_channel_name pid)
   \<and> (generate_client_channel_name pid = generate_client_channel_name pid') = (pid = pid')"
  using length_channel_name [of pid] channel_name_no_NUL [of pid]
  by (auto simp: c_str_channel_name cstr_chars_id setup_address_def mk_unix_socket_def
      sun_path_size_def channel_name_inject)

text \<open>C5: In every state that any interleaving of the main loop, the workers, the sweep and signals
  reaches from a started daemon: each session is filed under its process, of which there is one,
  has that process's channel and owns a connected listening socket on it; the sessions'
  channels are different; and the descriptors the daemon has beyond those it found are exactly
  its main socket and the sessions' sockets, and the netlink handles exactly its manager's.\<close>

theorem daemon_invariant:
  assumes "run_state (mk_daemon K) h0 = (Inr d0, h1)" and "daemon_reaches K (d0, h1) (d, h)"
  shows "daemon_holds d h0 h \<and> main_socket d = main_socket d0
    \<and> distinct (map (socket_path \<circ> session_socket \<circ> snd) (client_sessions d))"
proof -
  have made: "daemon_holds d0 h0 h1 \<and> client_sessions d0 = []"
    using wp_run [OF wp_mk_daemon assms(1)] by simp
  with daemon_reaches_sessions [OF assms(2)]
  have r: "sessions_wf (client_sessions d)" "main_socket d = main_socket d0"
    "netlink d = netlink d0" "same_netlink h1 h"
    "fd_count h = (\<lambda>z. fd_count h1 z + session_fds (client_sessions d) z)"
    by (simp_all add: sessions_wf_def)
  have "map (socket_path \<circ> session_socket \<circ> snd) (client_sessions d)
      = map (\<lambda>pid. ''/run/hycan_'' @ generate_client_channel_name pid) (map fst (client_sessions d))"
    using r(1) by (auto simp: sessions_wf_def session_wf_def)
  moreover have "distinct (map (\<lambda>pid. ''/run/hycan_'' @ generate_client_channel_name pid)
      (map fst (client_sessions d)))"
    using r(1) channel_name_inject
    by (subst distinct_map) (auto simp: sessions_wf_def inj_on_def)
  ultimately have "distinct (map (socket_path \<circ> session_socket \<circ> snd) (client_sessions d))"
    by (simp only:)
  then show ?thesis
    using made r by (auto simp: daemon_holds_def fun_eq_iff elim: nm_holds_later)
qed

theorem daemon_invariant_witness:
  "\<exists>d0 h1 d h. run_state (mk_daemon sample_os) [] = (Inr d0, h1)
     \<and> run_state (run_turn sample_os d0) h1 = (d, h)
     \<and> daemon_holds d [] h \<and> main_socket d = main_socket d0
     \<and> distinct (map (socket_path \<circ> session_socket \<circ> snd) (client_sessions d))"
  using sample_daemon daemon_invariant by blast

text \<open>C6: However the daemon got where it is, shutting it down (a signal, the end of \<open>run\<close> and the
  destructor) gives back everything: every descriptor, link reference, netlink socket and cache
  is counted as before the daemon was started.\<close>

theorem daemon_shutdown_releases_all:
  assumes "run_state (mk_daemon K) h0 = (Inr d0, h1)" and "daemon_reaches K (d0, h1) (d, h)"
  shows "wp (do { d \<leftarrow> daemon_stop K d; d \<leftarrow> cleanup_sessions K d; daemon_destroy K d })
    (\<lambda>_ h'. all_released h0 h') h"
proof -
  have "daemon_holds d0 h0 h1 \<and> client_sessions d0 = []"
    using wp_run [OF wp_mk_daemon assms(1)] by simp
  with daemon_reaches_sessions [OF assms(2)] have "daemon_holds d h0 h"
    by (auto simp: daemon_holds_def fun_eq_iff elim: nm_holds_later)
  then show ?thesis
    unfolding wp_rules
    by (auto intro!: wp_conseq [OF daemon_stop_holds] wp_conseq [OF cleanup_sessions_holds]
        daemon_destroy_releases)
qed

theorem daemon_shutdown_releases_all_witness:
  "\<exists>d0 h1 d h. run_state (mk_daemon sample_os) [] = (Inr d0, h1)
     \<and> run_state (run_turn sample_os d0) h1 = (d, h)
     \<and> wp (do { d \<leftarrow> daemon_stop sample_os d; d \<leftarrow> cleanup_sessions sample_os d;
           daemon_destroy sample_os d }) (\<lambda>_ h'. all_released [] h') h"
  using sample_daemon daemon_shutdown_releases_all by blast

text \<open>The program, run as root or not, with whatever clients and failures, for any number of
  turns, exits with 0 or 1 and holds nothing it did not hold before.\<close>

theorem main_program_releases_all:
  "wp (main_program K turns) (\<lambda>code h'. (code = 0 \<or> code = 1) \<and> all_released h h') h"
  unfolding main_program_def wp_rules
  by (rule wp_conseq [OF wp_mk_daemon])
    (auto simp: wp_rules split: sum.splits prod.splits
      intro!: wp_conseq [OF run_holds] wp_conseq [OF daemon_destroy_releases])

text \<open>A worker that receives a complete request answers it: it stamps the session, processes
  exactly the request that was sent, sends the response's bytes on the connection the request
  came on, and closes that connection.\<close>

theorem worker_answers_request:
  assumes "run_state (unix_accept K (session_socket s) 1000) h = (Some conn, h1)"
    and "run_state (unix_recv K conn 24 1000) h1 = ((24, encode_request req), h2)"
    and "wf_request req" and "connected conn" and "socket_fd conn \<noteq> -1" and "mode conn = CLIENT"
    and "run_state (process_request K nm req) ((Thr SteadyClock, now) # h2) = (Some resp, h3)"
    and "now = respond K h2 (Thr SteadyClock)"
  shows "\<exists>r1 r2. run_state (worker_turn K nm s) h
    = (Some (s\<lparr>last_activity := rv now\<rparr>),
       (Posix (Close (socket_fd conn)), r2)
         # (Posix (Send (socket_fd conn) (encode_response resp)), r1) # h3)"
proof -
  have "receive 24 decode_request 24 (encode_request req) = Some req"
    using assms(3) by (simp add: receive_def request.dec_enc)
  then show ?thesis
    using assms
    by (simp add: worker_turn_def sizeof_defs unix_send_def unix_destroy_def unix_close_def)
qed

text \<open>A worker at which one request to look up \<open>can0\<close> arrives.\<close>

definition request_os :: os where
  "request_os = sample_os\<lparr>respond := (\<lambda>h c. case c of
       Posix (Recv fd n) \<Rightarrow> (plain_reply 24)
         \<lparr>buf := encode_request (mk_query_request INTERFACE_EXISTS ''can0'')\<rparr>
     | _ \<Rightarrow> respond sample_os h c)\<rparr>"

definition sample_session :: client_session where
  "sample_session = (mk_session 7 0)
     \<lparr>session_socket := (mk_unix_socket (generate_client_channel_name 7) SERVER)
        \<lparr>socket_fd := 4, connected := True\<rparr>, has_worker := True\<rparr>"

theorem worker_answers_request_witness:
  "\<exists>t r1 r2 h3. run_state (worker_turn request_os mk_netlink_manager sample_session) []
     = (Some (sample_session\<lparr>last_activity := t\<rparr>),
        (Posix (Close 11), r2)
          # (Posix (Send 11 (encode_response (mk_query_response 0 True False))), r1) # h3)"
proof -
  let ?c = "mk_accepted_socket 11 (''/run/hycan_'' @ generate_client_channel_name 7)"
  let ?q = "mk_query_request INTERFACE_EXISTS ''can0''"
  have "\<exists>h1. run_state (unix_accept request_os (session_socket sample_session) 1000) [] = (Some ?c, h1)"
    by (simp add: unix_accept_def wait_readable_def sample_session_def request_os_def
        sample_os_def mk_unix_socket_def)
  then obtain h1 where
    1: "run_state (unix_accept request_os (session_socket sample_session) 1000) [] = (Some ?c, h1)"
    by blast
  have "\<exists>h2. run_state (unix_recv request_os ?c 24 1000) h1 = ((24, encode_request ?q), h2)"
    by (simp add: unix_recv_def wait_readable_def request_os_def sample_os_def)
  then obtain h2 where
    2: "run_state (unix_recv request_os ?c 24 1000) h1 = ((24, encode_request ?q), h2)"
    by blast
  have name: "c_str (interface_name ?q) = Some ''can0''"
    by (simp add: cstr_chars_def)
  have "\<exists>h3. run_state (process_request request_os mk_netlink_manager ?q) t
      = (Some (mk_query_response 0 True False), h3)" for t
    by (simp add: process_request_def with_name_def name check_interface_exists_def
        request_os_def sample_os_def)
  then obtain h3 where
    3: "run_state (process_request request_os mk_netlink_manager ?q)
          ((Thr SteadyClock, respond request_os h2 (Thr SteadyClock)) # h2)
        = (Some (mk_query_response 0 True False), h3)"
    by blast
  show ?thesis
    using worker_answers_request [OF 1 2 _ _ _ _ 3 refl] by auto
qed

text \<open>A sweep keeps exactly the sessions whose process is alive and whose last activity is at
  most five minutes ago, in their order, and changes none of them.\<close>

theorem sweep_keeps_live_sessions:
  assumes "\<And>h pid. rv (respond K h (Thr (Kill (sint pid) 0))) = (if alive pid then 0 else -1)"
  shows "wp (sweep K now ss) (\<lambda>ss' h'. ss' = filter (\<lambda>(_, s).
      alive (session_pid s) \<and> now - last_activity s \<le> 300000000000) ss) h"
proof (induction ss arbitrary: h)
  case Nil
  then show ?case by (simp add: wp_return)
next
  case (Cons p ss)
  show ?case
    by (cases p)
      (auto simp: wp_rules is_process_alive_def session_timeout_def assms
        intro!: wp_call_os wp_any [where m = "end_worker K s" for s]
          wp_any [where m = "unix_destroy K s" for s] wp_conseq [OF Cons.IH])
qed

theorem sweep_keeps_live_sessions_witness:
  "wp (sweep sample_os 300000000001 [(7, sample_session)]) (\<lambda>ss' h'. ss' = filter (\<lambda>(_, s).
      True \<and> 300000000001 - last_activity s \<le> 300000000000) [(7, sample_session)]) []"
  by (rule sweep_keeps_live_sessions [where alive = "\<lambda>_. True"]) (simp add: sample_os_def)

text \<open>When the thread of a new session cannot be started the session stays without a worker
  and the client gets no answer; but when the client registers again it is told that it is
  registered, the session still has no worker, and nobody will ever serve its channel.\<close>

theorem workerless_session_confirmed:
  assumes "map_of (client_sessions d) (client_pid req) = None"
    and "\<And>h n. rv (respond K h (Thr (ThreadStart n))) \<noteq> 0"
    and "connected conn" and "socket_fd conn \<noteq> -1"
  shows "wp (handle_client_registration K d req conn) (\<lambda>d1 h1.
     d1 = d \<or> (\<exists>s. map_of (client_sessions d1) (client_pid req) = Some s \<and> \<not> has_worker s
       \<and> wp (handle_client_registration K d1 req conn) (\<lambda>d2 h2.
           (\<exists>s'. map_of (client_sessions d2) (client_pid req) = Some s' \<and> \<not> has_worker s')
           \<and> fst (hd h2) = Posix (Send (socket_fd conn)
                 (encode_register_response (mk_register_response 0
                    (generate_client_channel_name (client_pid req)))))) h1)) h"
  using assms unfolding handle_client_registration_def send_registration_def unix_send_def
  by (auto simp: wp_rules Let_def mk_session_def split: prod.split
      intro!: wp_call_os wp_any [where m = "initialize K s" for s]
        wp_any [where m = "unix_destroy K s" for s])

definition no_threads_os :: os where
  "no_threads_os = sample_os\<lparr>respond := (\<lambda>h c. case c of
       Thr (ThreadStart n) \<Rightarrow> plain_reply 11
     | _ \<Rightarrow> respond sample_os h c)\<rparr>"

definition bare_daemon :: daemon where
  "bare_daemon = \<lparr>running = True,
     main_socket = (mk_unix_socket ''daemon'' SERVER)\<lparr>socket_fd := 3, connected := True\<rparr>,
     client_sessions = [], cleanup_joinable = True, netlink = mk_netlink_manager\<rparr>"

theorem workerless_session_confirmed_witness:
  "let req = mk_register_request 7; conn = mk_accepted_socket 9 [] in
   wp (handle_client_registration no_threads_os bare_daemon req conn) (\<lambda>d1 h1.
     d1 = bare_daemon
     \<or> (\<exists>s. map_of (client_sessions d1) (client_pid req) = Some s \<and> \<not> has_worker s
       \<and> wp (handle_client_registration no_threads_os d1 req conn) (\<lambda>d2 h2.
           (\<exists>s'. map_of (client_sessions d2) (client_pid req) = Some s' \<and> \<not> has_worker s')
           \<and> fst (hd h2) = Posix (Send (socket_fd conn)
                 (encode_register_response (mk_register_response 0
                    (generate_client_channel_name (client_pid req)))))) h1)) []"
  unfolding Let_def
  by (rule workerless_session_confirmed)
    (simp_all add: no_threads_os_def bare_daemon_def mk_register_request_def)

end
