(* ===== verification/Session_Worker.thy ===== *)
theory Session_Worker
  imports Daemon_Sessions
begin

section \<open>The life of a session\<close>

text \<open>
  The loops of the daemon's threads as wholes (\<open>client_session_worker\<close> and
  \<open>session_cleanup_worker\<close> in \<open>Daemon.cpp\<close>), and what the table of sessions looks like from
  outside. \<open>Daemon_Sessions\<close> has an iteration of each loop and interleaves the threads by
  iterations; here one thread runs by itself, and what it reads in the flags that others write is
  an argument: the list of the values its loop condition takes. A list that ends without
  \<open>False\<close> stands for a loop still running.
\<close>

subsection \<open>The loops\<close>

fun client_session_worker ::
  "os \<Rightarrow> netlink_manager \<Rightarrow> bool list \<Rightarrow> client_session \<Rightarrow> client_session option io" where
  "client_session_worker K nm [] s = State_Monad.return (Some s)"
| "client_session_worker K nm (go # tests) s =
     (if \<not> go then State_Monad.return (Some s)
      else do {
        r \<leftarrow> worker_turn K nm s;
        case r of
          None \<Rightarrow> State_Monad.return None
        | Some s \<Rightarrow> client_session_worker K nm tests s
      })"

fun session_cleanup_worker :: "os \<Rightarrow> bool list \<Rightarrow> daemon \<Rightarrow> daemon io" where
  "session_cleanup_worker K [] d = State_Monad.return d"
| "session_cleanup_worker K (go # tests) d =
     (if \<not> go then State_Monad.return d
      else do { d \<leftarrow> cleanup_turn K d; session_cleanup_worker K tests d })"

subsection \<open>What a worker received and sent\<close>

text \<open>
  The complete requests a history received and the byte strings it sent, newest first. The
  netlink work of the daemon adds to neither.
\<close>

fun requests :: "history \<Rightarrow> NetlinkRequest list" where
  "requests [] = []"
| "requests ((c, r) # h) = (case c of
     Posix (Recv fd n) \<Rightarrow>
       (if n = sizeof_NetlinkRequest \<and> rv r = int sizeof_NetlinkRequest
        then decode_request (buf r) # requests h else requests h)
   | _ \<Rightarrow> requests h)"

fun responses :: "history \<Rightarrow> byte list list" where
  "responses [] = []"
| "responses ((c, r) # h) = (case c of Posix (Send fd b) \<Rightarrow> b # responses h | _ \<Rightarrow> responses h)"

lemma process_request_quiet:
  assumes "\<And>n r h. f ((Nl n, r) # h) = f h"
  shows "unchanged f (process_request K nm req)"
  by (rule process_request_keeps;
      (unfold netlink_op_defs create_vcan_interface_if_not_exists_def)?;
      intro keeps_rules unchanged_call assms)

lemma requests_quiet:
  "unchanged requests (process_request K nm req)" "unchanged responses (process_request K nm req)"
  by (rule process_request_quiet, simp)+

text \<open>A response the daemon gives to a request, at some point of its history.\<close>

definition answered :: "os \<Rightarrow> netlink_manager \<Rightarrow> NetlinkRequest \<Rightarrow> byte list \<Rightarrow> bool" where
  "answered K nm q b \<longleftrightarrow>
     (\<exists>t x. fst (run_state (process_request K nm q) t) = Some x \<and> b = encode_response x)"

text \<open>
  Between two points of its history a worker has answered everything: each complete request it
  received, and nothing else, in the order received; after an undefined read it has answered all
  but the last.
\<close>

definition all_answered ::
  "os \<Rightarrow> netlink_manager \<Rightarrow> history \<Rightarrow> bool \<Rightarrow> history \<Rightarrow> bool" where
  "all_answered K nm h defined h' \<longleftrightarrow> (\<exists>qs bs.
     requests h' = qs @ requests h \<and> responses h' = bs @ responses h
     \<and> (if defined then list_all2 (answered K nm) qs bs
        else qs \<noteq> [] \<and> list_all2 (answered K nm) (tl qs) bs))"

lemma all_answered_refl [simp]: "all_answered K nm h True h"
  by (simp add: all_answered_def)

lemma all_answered_trans:
  assumes "all_answered K nm h True h1" and "all_answered K nm h1 b h2"
  shows "all_answered K nm h b h2"
proof -
  obtain qs bs where 1: "requests h1 = qs @ requests h" "responses h1 = bs @ responses h"
    "list_all2 (answered K nm) qs bs"
    using assms(1) by (auto simp: all_answered_def)
  obtain qs' bs' where 2: "requests h2 = qs' @ requests h1" "responses h2 = bs' @ responses h1"
    "if b then list_all2 (answered K nm) qs' bs'
     else qs' \<noteq> [] \<and> list_all2 (answered K nm) (tl qs') bs'"
    using assms(2) by (auto simp: all_answered_def)
  from 1 2 show ?thesis
    unfolding all_answered_def
    by (intro exI [of _ "qs' @ qs"] exI [of _ "bs' @ bs"])
      (auto intro: list_all2_appendI split: if_splits)
qed

lemma accept_quiet:
  assumes "\<And>fd a b r h. f ((Posix (Select fd a b), r) # h) = f h"
    and "\<And>fd r h. f ((Posix (Accept fd), r) # h) = f h"
  shows "unchanged f (unix_accept K s t)"
  unfolding unix_accept_def wait_readable_def by (intro keeps_rules unchanged_call assms)

lemma wp_accept_worker:
  "wp (unix_accept K s t) (\<lambda>r h'. requests h' = requests h \<and> responses h' = responses h
     \<and> (case r of None \<Rightarrow> True
        | Some c \<Rightarrow> mode c = CLIENT \<and> connected c \<and> socket_fd c \<noteq> -1)) h"
proof -
  have quiet: "unchanged requests (unix_accept K s t)" "unchanged responses (unix_accept K s t)"
    by (rule accept_quiet; simp)+
  have client: "mode c = CLIENT \<and> connected c"
    if "c = mk_accepted_socket (socket_fd c) (socket_path s)" for c
    by (subst that, subst (2) that) simp
  show ?thesis
    by (rule wp_conseq [OF wp_conj [OF keepsD [OF quiet(1)]
            wp_conj [OF keepsD [OF quiet(2)] wp_unix_accept]]])
      (auto split: option.split dest: client)
qed

lemma wp_recv_request:
  "connected c \<Longrightarrow> socket_fd c \<noteq> -1 \<Longrightarrow> wp (unix_recv K c sizeof_NetlinkRequest t)
     (\<lambda>(k, b) h'. responses h' = responses h \<and> requests h' =
        (case receive sizeof_NetlinkRequest decode_request k b of
           Some q \<Rightarrow> q # requests h | None \<Rightarrow> requests h)) h"
  unfolding unix_recv_def wait_readable_def receive_def sizeof_NetlinkRequest_def
  by (auto simp: wp_rules sizeof_NetlinkRequest_def intro!: wp_call_os_any)

lemma wp_process_answered:
  "wp (process_request K nm q) (\<lambda>r h'. requests h' = requests h \<and> responses h' = responses h
     \<and> (\<forall>x. r = Some x \<longrightarrow> answered K nm q (encode_response x))) h"
proof -
  have "wp (process_request K nm q)
      (\<lambda>r h'. \<forall>x. r = Some x \<longrightarrow> answered K nm q (encode_response x)) h"
    by (auto simp: wp_fst_snd answered_def)
  from wp_conj [OF wp_conj [OF keepsD [OF requests_quiet(1)] keepsD [OF requests_quiet(2)]] this]
  show ?thesis
    by (rule wp_conseq) simp
qed

lemma worker_turn_answers:
  "wp (worker_turn K nm s) (\<lambda>r h'. all_answered K nm h (r \<noteq> None) h') h"
  unfolding worker_turn_def unix_send_def unix_destroy_def unix_close_def
  by (auto simp: wp_rules Let_def all_answered_def split: option.splits
      intro!: wp_conseq [OF wp_accept_worker] wp_conseq [OF wp_recv_request]
        wp_conseq [OF wp_process_answered] wp_call_os_any)

text \<open>C15: A worker answers everything it is asked, and says nothing else: over its whole life, every
  complete request it receives is answered once, in the order received, with the response that
  processing exactly this request gave; nothing is sent unasked, whatever is received
  incomplete. All connections are closed, and the session changes in its time stamp only.\<close>

theorem worker_answers_all:
  "wp (client_session_worker K nm tests s) (\<lambda>r h'. all_answered K nm h (r \<noteq> None) h'
     \<and> (case r of None \<Rightarrow> True | Some s' \<Rightarrow> same_session s s' \<and> fd_count h' = fd_count h)) h"
proof (induction tests arbitrary: s h)
  case Nil
  then show ?case by (simp add: wp_return)
next
  case (Cons go tests)
  have same: "same_session a c" if "same_session a b" "same_session b c" for a b c
    using that by (simp add: same_session_def)
  show ?case
    by (auto simp: wp_rules split: option.splits
        intro!: wp_conseq [OF wp_conj [OF worker_turn_answers wp_worker_turn]] wp_conseq [OF Cons.IH])
      (blast intro: all_answered_trans same)+
qed

subsection \<open>What the daemon learns\<close>







subsection \<open>The table of sessions, abstractly\<close>



















text \<open>The table of a daemon whose one session's process is dead.\<close>

definition dead_client_os :: os where
  "dead_client_os = sample_os\<lparr>respond := (\<lambda>h c. case c of
       Thr (Kill _ _) \<Rightarrow> plain_reply (-1)
     | _ \<Rightarrow> respond sample_os h c)\<rparr>"

definition served_daemon :: daemon where
  "served_daemon = bare_daemon\<lparr>client_sessions := [(7, (mk_session 7 0)
     \<lparr>session_socket := (mk_unix_socket (generate_client_channel_name 7) SERVER)
        \<lparr>socket_fd := 5, connected := True\<rparr>, has_worker := True\<rparr>)]\<rparr>"

lemma served_daemon_wf: "sessions_wf (client_sessions served_daemon)"
  by (simp add: served_daemon_def sessions_wf_def session_wf_def mk_session_def mk_unix_socket_def
      bare_daemon_def)


lemma subseq_map_of: "subseq xs ys \<Longrightarrow> map_of ys k = None \<Longrightarrow> map_of xs k = None"
  by (metis map_of_eq_None_iff image_mono set_nths_subset subseq_conv_nths subsetD)

lemma cleanup_turn_shrinks:
  "map_of (client_sessions d) pid = None
     \<Longrightarrow> wp (cleanup_turn K d) (\<lambda>d' _. map_of (client_sessions d') pid = None) t"
  unfolding cleanup_turn_def
  by (auto simp: wp_rules intro!: wp_call_os_any wp_conseq [OF wp_sweep])
    (erule (1) subseq_map_of)

text \<open>C24: A dead client does not stay: once the sweeping thread has passed, the session of a process
  that \<open>kill\<close> reports dead is gone, and however often the thread passes again it does not come
  back through it.\<close>

theorem dead_sessions_swept:
  assumes "sessions_wf (client_sessions d)"
    and "\<And>h. rv (respond K h (Thr (Kill (sint pid) 0))) \<noteq> 0"
  shows "wp (session_cleanup_worker K (True # tests) d)
    (\<lambda>d' _. map_of (client_sessions d') pid = None) h"
proof -
  have dead: "rv (respond K h (Thr (Kill (sint p) 0))) \<noteq> 0" if "p = pid" for h p
    using assms(2) that by simp
  have first: "wp (sweep K now ss) (\<lambda>ss' _. map_of ss' pid = None) t"
    if "\<forall>(p, s) \<in> set ss. session_pid s = p" for now ss t
    using that
  proof (induction ss arbitrary: t)
    case (Cons e ss)
    then show ?case
      by (cases e)
        (auto simp: wp_rules is_process_alive_def dead
          intro!: wp_call_os wp_any [where m = "end_worker K s" for s]
            wp_any [where m = "unix_destroy K s" for s] wp_conseq [OF Cons.IH])
  qed (simp add: wp_return)
  have later: "wp (session_cleanup_worker K tests d) (\<lambda>d' _. map_of (client_sessions d') pid = None) t"
    if "map_of (client_sessions d) pid = None" for tests d t
    using that
  proof (induction tests arbitrary: d t)
    case (Cons go tests)
    then show ?case
      by (auto simp: wp_rules 
          intro!: wp_conseq [OF cleanup_turn_shrinks] Cons.IH)
  qed (simp add: wp_return)
  have "\<forall>(p, s) \<in> set (client_sessions d). session_pid s = p"
    using assms(1) by (auto simp: sessions_wf_def session_wf_def)
  note swept = first [OF this]
  show ?thesis
    by (auto simp: wp_rules cleanup_turn_def intro!: wp_call_os_any wp_conseq [OF swept] later)
qed

theorem dead_sessions_swept_witness:
  "wp (session_cleanup_worker dead_client_os [True, True] served_daemon)
    (\<lambda>d' _. map_of (client_sessions d') 7 = None) []"
  by (rule dead_sessions_swept [OF served_daemon_wf]) (simp add: dead_client_os_def plain_reply_def)

end
