(* ===== verification/Guarded_Table.thy ===== *)
theory Guarded_Table
  imports Spin_Lock Frame_Dispatcher
begin

section \<open>The callback table under its lock\<close>

text \<open>
  \<open>Frame_Dispatcher\<close> takes \<open>register_func\<close> and the call of a callback as one step each. Here they are
  what they are in \<open>Dispatcher.hpp\<close> and \<open>Dispatcher.cpp\<close>: any number of threads, each access to the
  lock's flag a step (\<open>Spin_Lock\<close>), each assignment to an entry of the table a step, the callback
  a stretch of time during which the lock is held. The result is that the coarse steps are
  enough: whatever the interleaving, every frame meets a table that complete registrations
  have made, one after the other.
\<close>

subsection \<open>Threads\<close>

text \<open>
  What a thread is doing with the table: nothing; registering a callback, with the identifiers
  whose entries it has written and those it has still to write; reading the entry of a frame's
  identifier; running the callback it found, if any.
\<close>

datatype task =
    Idle
  | Registering "nat set" nat "nat list" "nat list"
  | Reading can_frame
  | Calling

text \<open>
  \<open>committed\<close> and \<open>seen\<close> record what happened, newest first: the registrations that returned
  success, and for each frame the callback it met with the registrations committed by then.
\<close>

record guarded =
  lk :: lock_state
  entries :: "nat option list"
  todo :: "nat \<Rightarrow> task"
  committed :: "(nat set \<times> nat) list"
  seen :: "(can_frame \<times> nat option \<times> (nat set \<times> nat) list) list"

definition mk_guarded :: guarded where
  "mk_guarded = \<lparr>lk = mk_spin_lock, entries = replicate max_std_can_id None, todo = (\<lambda>_. Idle),
     committed = [], seen = []\<rparr>"

definition set_task :: "nat \<Rightarrow> task \<Rightarrow> guarded \<Rightarrow> guarded" where
  "set_task t x g = g\<lparr>todo := (todo g)(t := x)\<rparr>"

text \<open>
  A refused registration returns with the lock held; a frame whose identifier is outside the
  table has no further step.
\<close>

inductive guarded_step :: "nat \<Rightarrow> guarded \<Rightarrow> guarded \<Rightarrow> bool" where
  begin_register: "pc (lk g) t = Outside \<Longrightarrow> finite ids
    \<Longrightarrow> guarded_step t g (set_task t (Registering ids cb [] (sorted_list_of_set ids))
          (g\<lparr>lk := at_pc t (LockExchange, locked (lk g)) (lk g)\<rparr>))"
| begin_dispatch: "pc (lk g) t = Outside
    \<Longrightarrow> guarded_step t g (set_task t (Reading f)
          (g\<lparr>lk := at_pc t (LockExchange, locked (lk g)) (lk g)\<rparr>))"
| lock_step: "pc (lk g) t \<noteq> Outside \<Longrightarrow> pc (lk g) t \<noteq> Holding
    \<Longrightarrow> guarded_step t g (g\<lparr>lk := at_pc t (lock_access (pc (lk g) t) (locked (lk g))) (lk g)\<rparr>)"
| write_entry: "pc (lk g) t = Holding \<Longrightarrow> todo g t = Registering ids cb wr (i # rest)
    \<Longrightarrow> i < max_std_can_id
    \<Longrightarrow> guarded_step t g (set_task t (Registering ids cb (wr @ [i]) rest)
          (g\<lparr>entries := (entries g)[i := Some cb]\<rparr>))"
| refuse: "pc (lk g) t = Holding \<Longrightarrow> todo g t = Registering ids cb wr (i # rest)
    \<Longrightarrow> max_std_can_id \<le> i
    \<Longrightarrow> guarded_step t g (set_task t Idle (g\<lparr>lk := at_pc t (Outside, locked (lk g)) (lk g)\<rparr>))"
| commit: "pc (lk g) t = Holding \<Longrightarrow> todo g t = Registering ids cb wr []
    \<Longrightarrow> guarded_step t g (set_task t Idle
          (g\<lparr>lk := unlock t (lk g), committed := (ids, cb) # committed g\<rparr>))"
| read_entry: "pc (lk g) t = Holding \<Longrightarrow> todo g t = Reading f \<Longrightarrow> unat (can_id f) < max_std_can_id
    \<Longrightarrow> guarded_step t g (set_task t Calling
          (g\<lparr>seen := (f, entries g ! unat (can_id f), committed g) # seen g\<rparr>))"
| return: "pc (lk g) t = Holding \<Longrightarrow> todo g t = Calling
    \<Longrightarrow> guarded_step t g (set_task t Idle (g\<lparr>lk := unlock t (lk g)\<rparr>))"

inductive_cases guarded_stepE: "guarded_step t g g'"

inductive guarded_reaches :: "guarded \<Rightarrow> bool" where
  start: "guarded_reaches mk_guarded"
| step: "guarded_reaches g \<Longrightarrow> guarded_step t g g' \<Longrightarrow> guarded_reaches g'"

lemma set_task_simps [simp]:
  "lk (set_task t x g) = lk g" "entries (set_task t x g) = entries g"
  "committed (set_task t x g) = committed g" "seen (set_task t x g) = seen g"
  "todo (set_task t x g) u = (if u = t then x else todo g u)"
  by (simp_all add: set_task_def)

subsection \<open>The lock is the spin lock\<close>

lemma guarded_step_lock:
  "guarded_step t g g' \<Longrightarrow> lk g' = lk g \<or> leaky_step t (lk g) (lk g')"
  by (erule guarded_stepE) (auto intro: spin_step.intros leaky_step.intros)

lemma guarded_reaches_lock: "guarded_reaches g \<Longrightarrow> reaches leaky_step mk_spin_lock (lk g)"
proof (induction rule: guarded_reaches.induct)
  case start
  then show ?case by (simp add: mk_guarded_def here)
next
  case (step g t g')
  then show ?case
    using guarded_step_lock [of t g g'] by (auto intro: there)
qed

subsection \<open>What the table is made of\<close>

text \<open>The dispatcher after registrations that run one after the other, the newest first in the list.\<close>

fun sequential :: "dispatcher \<Rightarrow> (nat set \<times> nat) list \<Rightarrow> dispatcher option" where
  "sequential d [] = Some d"
| "sequential d ((ids, cb) # regs) = (case sequential d regs of
     None \<Rightarrow> None
   | Some d' \<Rightarrow> map_option snd (register_func d' ids cb))"

abbreviation put :: "nat \<Rightarrow> nat \<Rightarrow> nat option list \<Rightarrow> nat option list" where
  "put cb i fs \<equiv> fs[i := Some cb]"

text \<open>
  \<open>made_of fs regs\<close>: the table that the registrations make sequentially is \<open>fs\<close>, and the lock is
  free after them.
\<close>

definition made_of :: "nat option list \<Rightarrow> (nat set \<times> nat) list \<Rightarrow> bool" where
  "made_of fs regs \<longleftrightarrow> length fs = max_std_can_id
     \<and> sequential (fresh_dispatcher False []) regs = Some ((fresh_dispatcher False [])\<lparr>funcs := fs\<rparr>)"

lemma made_of_initial: "made_of (replicate max_std_can_id None) []"
  by (simp add: made_of_def fresh_dispatcher_def)

lemma made_of_commit:
  assumes "made_of fs regs" and "set (sorted_list_of_set ids) \<subseteq> {..<max_std_can_id}"
  shows "made_of (fold (put cb) (sorted_list_of_set ids) fs) ((ids, cb) # regs)"
proof -
  have "register_loop (sorted_list_of_set ids) cb fs
      = (None, fold (put cb) (sorted_list_of_set ids) fs)"
    using assms(2) by (intro register_loop_good) auto
  moreover have "length (fold (put cb) xs fs) = length fs" for xs
    by (induction xs arbitrary: fs) auto
  ultimately show ?thesis
    using assms(1) by (simp add: made_of_def register_func_def fresh_dispatcher_def Let_def)
qed

text \<open>
  The invariant. While nobody holds the lock the table is made of the committed registrations;
  so it is while a thread reads it; and while a thread registers, the entries it has written
  are added to that. A thread that does not hold the lock has written nothing.
\<close>

definition task_ok :: "spin_pc \<Rightarrow> task \<Rightarrow> bool" where
  "task_ok p x \<longleftrightarrow> (case x of
       Idle \<Rightarrow> p = Outside
     | Registering ids cb wr rest \<Rightarrow> p \<noteq> Outside \<and> wr @ rest = sorted_list_of_set ids
         \<and> set wr \<subseteq> {..<max_std_can_id} \<and> (p \<noteq> Holding \<longrightarrow> wr = [])
     | Reading f \<Rightarrow> p \<noteq> Outside
     | Calling \<Rightarrow> p = Holding)"

definition written_by :: "task \<Rightarrow> nat option list \<Rightarrow> nat option list" where
  "written_by x fs = (case x of Registering ids cb wr rest \<Rightarrow> fold (put cb) wr fs | _ \<Rightarrow> fs)"

definition entries_ok :: "guarded \<Rightarrow> nat option list \<Rightarrow> bool" where
  "entries_ok g fs \<longleftrightarrow> (\<not> locked (lk g) \<longrightarrow> entries g = fs)
     \<and> (\<forall>t. pc (lk g) t = Holding \<longrightarrow> entries g = written_by (todo g t) fs)"

definition guarded_inv :: "guarded \<Rightarrow> bool" where
  "guarded_inv g \<longleftrightarrow> (\<forall>t. task_ok (pc (lk g) t) (todo g t))
     \<and> (\<exists>fs. made_of fs (committed g) \<and> entries_ok g fs)"

lemma guarded_inv_initial: "guarded_inv mk_guarded"
  using made_of_initial
  by (auto simp: guarded_inv_def entries_ok_def mk_guarded_def mk_spin_lock_def task_ok_def)

lemma lock_access_task:
  assumes "p \<noteq> Outside" and "p \<noteq> Holding" and "p \<noteq> TryLoad" and "p \<noteq> TryExchange"
  shows "fst (lock_access p flag) \<noteq> Outside" and "fst (lock_access p flag) \<noteq> TryLoad"
    and "fst (lock_access p flag) \<noteq> TryExchange"
    and "fst (lock_access p flag) = Holding \<Longrightarrow> \<not> flag"
    and "\<not> snd (lock_access p flag) \<Longrightarrow> \<not> flag"
  using assms by (cases p; auto)+

text \<open>Nobody calls \<open>try_lock\<close>.\<close>

definition no_try :: "guarded \<Rightarrow> bool" where
  "no_try g \<longleftrightarrow> (\<forall>t. pc (lk g) t \<noteq> TryLoad \<and> pc (lk g) t \<noteq> TryExchange)"

lemma guarded_step_no_try: "guarded_step t g g' \<Longrightarrow> no_try g \<Longrightarrow> no_try g'"
  by (erule guarded_stepE) (auto simp: no_try_def unlock_def lock_access_task)

lemma guarded_step_tasks:
  assumes "guarded_step t g g'" and "no_try g" and "\<And>t. task_ok (pc (lk g) t) (todo g t)"
  shows "task_ok (pc (lk g') u) (todo g' u)"
proof (cases "u = t")
  case False
  from assms(1) show ?thesis
    by cases (use False assms(3) [of u] in \<open>auto simp: unlock_def\<close>)
next
  case True
  from assms(1) show ?thesis
  proof cases
    case lock_step
    then show ?thesis
      using True assms(2) assms(3) [of t] lock_access_task [of "pc (lk g) t" "locked (lk g)"]
      by (auto simp: no_try_def task_ok_def split: task.splits)
  qed (use True assms(3) [of t] in \<open>auto simp: task_ok_def unlock_def split: task.splits\<close>)
qed

lemma entries_ok_access:
  assumes "entries_ok g fs" and "no_try g" and "task_ok (pc (lk g) t) (todo g t)"
    and "pc (lk g) t \<noteq> Outside" and "pc (lk g) t \<noteq> Holding"
  shows "entries_ok (g\<lparr>lk := at_pc t (lock_access (pc (lk g) t) (locked (lk g))) (lk g)\<rparr>) fs"
proof -
  have calls: "pc (lk g) t \<noteq> TryLoad" "pc (lk g) t \<noteq> TryExchange"
    using assms(2) by (auto simp: no_try_def)
  note access = lock_access_task [OF assms(4,5) calls, of "locked (lk g)"]
  have "written_by (todo g t) fs = fs"
    using assms(3-5) by (auto simp: task_ok_def written_by_def split: task.splits)
  with access(4,5) assms(1) show ?thesis
    by (auto simp: entries_ok_def)
qed

text \<open>What a thread that holds the lock sees, and what its steps leave.\<close>

lemma entries_ok_holder:
  assumes "entries_ok g fs" and "exclusive (lk g)" and "pc (lk g) t = Holding"
  shows "entries g = written_by (todo g t) fs" and "locked (lk g)"
    and "\<And>u. u \<noteq> t \<Longrightarrow> pc (lk g) u \<noteq> Holding"
  using assms by (auto simp: entries_ok_def exclusive_def)

lemma entries_ok_held:
  assumes "exclusive (lk g)" and "pc (lk g) t = Holding" and "entries g = written_by (todo g t) fs"
  shows "entries_ok g fs"
proof -
  have "locked (lk g)" and only: "\<And>u. pc (lk g) u = Holding \<Longrightarrow> u = t"
    using assms(1,2) by (auto simp: exclusive_def)
  then show ?thesis
    unfolding entries_ok_def using assms(3) only by blast
qed

lemma entries_ok_not_held:
  "(\<And>u. pc (lk g) u \<noteq> Holding) \<Longrightarrow> entries g = fs \<Longrightarrow> entries_ok g fs"
  by (simp add: entries_ok_def)

lemma entries_ok_begin:
  assumes "entries_ok g fs" and "pc (lk g) t = Outside"
  shows "entries_ok (set_task t x (g\<lparr>lk := at_pc t (LockExchange, locked (lk g)) (lk g)\<rparr>)) fs"
  using assms(1) by (simp add: entries_ok_def)

lemma entries_ok_commit:
  assumes "entries_ok g fs" and "exclusive (lk g)" and "made_of fs (committed g)"
    and "task_ok (pc (lk g) t) (todo g t)"
    and "pc (lk g) t = Holding" and "todo g t = Registering ids cb wr []"
  shows "made_of (fold (put cb) wr fs) ((ids, cb) # committed g)"
    and "entries_ok (set_task t Idle (g\<lparr>lk := unlock t (lk g), committed := (ids, cb) # committed g\<rparr>))
           (fold (put cb) wr fs)"
proof -
  have wr: "wr = sorted_list_of_set ids" "set wr \<subseteq> {..<max_std_can_id}"
    using assms(4,6) by (auto simp: task_ok_def)
  show "made_of (fold (put cb) wr fs) ((ids, cb) # committed g)"
    using made_of_commit [OF assms(3), of ids cb] wr by (simp only:)
  show "entries_ok (set_task t Idle (g\<lparr>lk := unlock t (lk g), committed := (ids, cb) # committed g\<rparr>))
      (fold (put cb) wr fs)"
    using entries_ok_holder [OF assms(1,2,5)] assms(6)
    by (simp add: entries_ok_def written_by_def unlock_def)
qed

lemma guarded_step_keeps_entries:
  assumes "guarded_step t g g'" and "entries_ok g fs" and "no_try g" and "exclusive (lk g)"
    and "task_ok (pc (lk g) t) (todo g t)" and "committed g' = committed g"
  shows "entries_ok g' fs"
proof -
  note holder = entries_ok_holder [OF assms(2,4), of t]
  note held = entries_ok_held [of _ t]
  from assms(1) show ?thesis
  proof cases
    case lock_step
    then show ?thesis
      using entries_ok_access [OF assms(2,3,5)] by simp
  next
    case (commit ids cb wr)
    with assms(6) show ?thesis by simp
  next
    case (refuse ids cb wr i rest)
    show ?thesis
      unfolding refuse(1) entries_ok_def using holder(2,3) [OF refuse(2)] by simp
  next
    case (write_entry ids cb wr i rest)
    show ?thesis
      unfolding write_entry(1)
      by (rule held) (simp_all add: assms(4) write_entry(2,3) holder(1) [OF write_entry(2)] written_by_def)
  next
    case (read_entry f)
    show ?thesis
      unfolding read_entry(1)
      by (rule held) (simp_all add: assms(4) read_entry(2,3) holder(1) [OF read_entry(2)] written_by_def)
  next
    case return
    show ?thesis
      unfolding return(1) by (rule entries_ok_not_held)
        (use holder(3) [OF return(2)] in \<open>simp_all add: unlock_def holder(1) [OF return(2)] written_by_def return(3)\<close>)
  qed (simp_all add: entries_ok_begin [OF assms(2)])
qed

lemma guarded_step_entries:
  assumes "guarded_step t g g'" and "guarded_inv g" and "no_try g" and "exclusive (lk g)"
  shows "\<exists>fs. made_of fs (committed g') \<and> entries_ok g' fs"
proof -
  have task: "task_ok (pc (lk g) t) (todo g t)"
    using assms(2) by (simp add: guarded_inv_def)
  obtain fs where fs: "made_of fs (committed g)" "entries_ok g fs"
    using assms(2) by (auto simp: guarded_inv_def)
  show ?thesis
  proof (cases "committed g' = committed g")
    case True
    with fs(1) guarded_step_keeps_entries [OF assms(1) fs(2) assms(3,4) task True] show ?thesis by auto
  next
    case False
    with assms(1) show ?thesis
      by cases (use entries_ok_commit [OF fs(2) assms(4) fs(1) task] in auto)
  qed
qed

lemma guarded_step_inv:
  assumes "guarded_step t g g'" and "guarded_inv g" and "no_try g" and "exclusive (lk g)"
  shows "guarded_inv g'"
  using guarded_step_entries [OF assms] guarded_step_tasks [OF assms(1,3)] assms(2)
  by (simp add: guarded_inv_def)

lemma guarded_reaches_inv: "guarded_reaches g \<Longrightarrow> guarded_inv g \<and> no_try g"
proof (induction rule: guarded_reaches.induct)
  case start
  then show ?case
    using guarded_inv_initial by (simp add: no_try_def) (simp add: mk_guarded_def mk_spin_lock_def)
next
  case (step g t g')
  then show ?case
    using guarded_step_inv guarded_step_no_try
      reachable_exclusive [OF guarded_reaches_lock [OF step.hyps(1)]] by blast
qed

text \<open>A frame was given what sequential registrations had put in the table.\<close>

definition seen_ok :: "(nat set \<times> nat) list \<Rightarrow> can_frame \<times> nat option \<times> (nat set \<times> nat) list \<Rightarrow> bool" where
  "seen_ok regs x = (case x of (f, cb, regs') \<Rightarrow> suffix regs' regs
     \<and> (\<exists>fs. made_of fs regs' \<and> callback_for fs (unat (can_id f)) = cb))"

lemma seen_ok_later: "seen_ok regs x \<Longrightarrow> seen_ok (r # regs) x"
  by (auto simp: seen_ok_def intro: suffix_ConsI)

lemma guarded_step_seen:
  assumes "guarded_step t g g'" and "guarded_inv g" and "\<forall>x \<in> set (seen g). seen_ok (committed g) x"
  shows "\<forall>x \<in> set (seen g'). seen_ok (committed g') x"
  using assms(1)
proof cases
  case (read_entry f)
  have "\<exists>fs. made_of fs (committed g) \<and> (pc (lk g) t = Holding \<longrightarrow> entries g = written_by (todo g t) fs)"
    using assms(2) unfolding guarded_inv_def entries_ok_def by blast
  with read_entry obtain fs where "made_of fs (committed g)" "entries g = fs"
    by (auto simp: written_by_def)
  then show ?thesis
    using read_entry assms(3) by (auto simp: seen_ok_def callback_for_def made_of_def)
qed (use assms(3) in \<open>auto intro: seen_ok_later\<close>)

lemma guarded_reaches_seen: "guarded_reaches g \<Longrightarrow> \<forall>x \<in> set (seen g). seen_ok (committed g) x"
proof (induction rule: guarded_reaches.induct)
  case start
  then show ?case by (simp add: mk_guarded_def)
next
  case (step g t g')
  then show ?case
    using guarded_step_seen guarded_reaches_inv by blast
qed

subsection \<open>Properties\<close>

text \<open>C16: Registering is atomic for frames, although its assignments are not: in every interleaving
  of any number of registering and dispatching threads, the callback a frame meets is the one
  that \<open>register_func\<close> leaves for its identifier when the registrations that had succeeded by then
  are run one after the other. No frame meets a registration half done, or one that was refused.\<close>

theorem frames_meet_whole_registrations:
  assumes "guarded_reaches g" and "(f, cb, regs) \<in> set (seen g)"
  shows "suffix regs (committed g)
    \<and> (\<exists>d. sequential (fresh_dispatcher False []) regs = Some d \<and> \<not> lock_flag d
         \<and> callback_for (funcs d) (unat (can_id f)) = cb)"
  using guarded_reaches_seen [OF assms(1)] assms(2)
  by (auto simp: seen_ok_def made_of_def fresh_dispatcher_def)

text \<open>A run of two threads: one registers callback 9 for identifier 1, the other gets a frame.\<close>

lemma registered_run:
  "\<exists>g. guarded_reaches g \<and> committed g = [({1}, 9)] \<and> entries g = (replicate 2048 None)[1 := Some 9]
     \<and> pc (lk g) 2 = Outside \<and> \<not> locked (lk g)"
proof -
  let ?g1 = "set_task 1 (Registering {1} 9 [] [1]) (mk_guarded\<lparr>lk := at_pc 1 (LockExchange, False) mk_spin_lock\<rparr>)"
  let ?g2 = "?g1\<lparr>lk := at_pc 1 (Holding, True) (lk ?g1)\<rparr>"
  let ?g3 = "set_task 1 (Registering {1} 9 [1] []) (?g2\<lparr>entries := (replicate 2048 None)[1 := Some 9]\<rparr>)"
  let ?g4 = "set_task 1 Idle (?g3\<lparr>lk := unlock 1 (lk ?g3), committed := [({1}, 9)]\<rparr>)"
  have "guarded_step 1 mk_guarded ?g1"
    using guarded_step.begin_register [of mk_guarded 1 "{1}" 9] by (simp add: mk_guarded_def mk_spin_lock_def)
  moreover have "guarded_step 1 ?g1 ?g2"
    using guarded_step.lock_step [of ?g1 1] by simp
  moreover have "guarded_step 1 ?g2 ?g3"
    using guarded_step.write_entry [of ?g2 1 "{1}" 9 "[]" 1 "[]"]
    by (simp add: max_std_can_id_def mk_guarded_def)
  moreover have "guarded_step 1 ?g3 ?g4"
    using guarded_step.commit [of ?g3 1 "{1}" 9 "[1]"] by (simp add: mk_guarded_def)
  ultimately have "guarded_reaches ?g4"
    by (meson guarded_reaches.intros)
  then show ?thesis
    by (intro exI [of _ ?g4]) (simp add: unlock_def mk_spin_lock_def)
qed

theorem frames_meet_whole_registrations_witness:
  "\<exists>g. guarded_reaches g \<and> (zero_frame\<lparr>can_id := 1\<rparr>, Some 9, [({1}, 9)]) \<in> set (seen g) \<and> suffix [({1}, 9)] (committed g)
    \<and> (\<exists>d. sequential (fresh_dispatcher False []) [({1}, 9)] = Some d \<and> \<not> lock_flag d
         \<and> callback_for (funcs d) (unat (can_id (zero_frame\<lparr>can_id := 1\<rparr>))) = Some 9)"
proof -
  let ?f = "zero_frame\<lparr>can_id := 1\<rparr>"
  obtain g where g: "guarded_reaches g" "committed g = [({1}, 9)]"
    "entries g = (replicate 2048 None)[1 := Some 9]" "pc (lk g) 2 = Outside" "\<not> locked (lk g)"
    using registered_run by blast
  let ?g1 = "set_task 2 (Reading ?f) (g\<lparr>lk := at_pc 2 (LockExchange, False) (lk g)\<rparr>)"
  let ?g2 = "?g1\<lparr>lk := at_pc 2 (Holding, True) (lk ?g1)\<rparr>"
  let ?g3 = "set_task 2 Calling (?g2\<lparr>seen := (?f, Some 9, [({1}, 9)]) # seen g\<rparr>)"
  have "guarded_step 2 g ?g1"
    using guarded_step.begin_dispatch [OF g(4), of ?f] g(5) by simp
  moreover have "guarded_step 2 ?g1 ?g2"
    using guarded_step.lock_step [of ?g1 2] by simp
  moreover have "guarded_step 2 ?g2 ?g3"
    using guarded_step.read_entry [of ?g2 2 ?f] g(2,3) by (simp add: max_std_can_id_def)
  ultimately have r: "guarded_reaches ?g3"
    using g(1) by (meson guarded_reaches.intros)
  have s: "(?f, Some 9, [({1}, 9)]) \<in> set (seen ?g3)"
    by simp
  show ?thesis
    by (rule exI [of _ ?g3], rule conjI [OF r conjI [OF s]], rule frames_meet_whole_registrations [OF r s])
qed

end
