(* ===== verification/Shutdown_Locks.thy ===== *)
theory Shutdown_Locks
  imports HyCAN_Prelude
begin

section \<open>Who waits for whom in the daemon\<close>

text \<open>
  \<open>Daemon_Sessions\<close> takes the turns of the daemon's threads as single steps. That is right for what
  they do to the sessions, but not for the question whether the daemon ends: a thread inside its
  turn may wait for another one. This theory goes through \<open>Daemon.cpp\<close> and \<open>main.cpp\<close> once more and
  keeps of every statement only what concerns waiting: the two mutexes \<open>sessions_mutex_\<close> and
  the netlink manager's, the joins of the cleanup thread and of the workers, and the flags that
  end loops. Whatever has a time limit (\<open>accept\<close>, \<open>recv\<close>, \<open>sleep_for\<close>) or is left to the
  kernel or to a client is a choice.

  The signal handler runs on the main thread, on top of whatever that thread is doing, and
  \<open>stop\<close>, which it calls, joins the cleanup thread.
\<close>

subsection \<open>Threads\<close>

type_synonym pid = "32 word"

text \<open>
  The main thread: in \<open>run\<close> before its loop; at the loop's test; in \<open>accept\<close> and \<open>recv\<close>; before the
  lock of \<open>handle_client_registration\<close>, after it, and before the response; in the signal handler,
  on top of one of these; before the lock of \<open>cleanup_sessions\<close>, in its loop with the sessions
  left, and at a join; in the destructor before and at its join; and past it.
\<close>

datatype main_point =
    Entering
  | Polling
  | Accepting
  | Enrolling pid
  | Enrolled pid
  | Replying
  | Handling main_point
  | Closing
  | Ending "pid list"
  | Waiting pid "pid list"
  | Destructing
  | Last_join
  | Gone

text \<open>
  The cleanup thread: at its test, asleep, before the lock, in the loop over the sessions left,
  at a join, and past its end.
\<close>

datatype cleaner_point =
    Cleaner_test
  | Asleep
  | Locking_table
  | Sweeping "pid list"
  | Joining pid "pid list"
  | Cleaned

text \<open>A worker: at its test, in \<open>accept\<close> and \<open>recv\<close>, before and after the netlink manager's lock, past its end.\<close>

datatype worker_point = Worker_test | Worker_accept | Wants_netlink | Has_netlink | Worker_gone

datatype owner = Main_thread | Cleanup_thread

record shutdown =
  flag :: bool
  joined :: bool
  table :: "pid list"
  serving :: "pid \<Rightarrow> bool"
  main_at :: main_point
  cleaner_at :: cleaner_point
  worker_at :: "pid \<Rightarrow> worker_point"
  sessions_mutex :: "owner option"
  netlink_mutex :: "pid option"

text \<open>After the constructor, when \<open>run\<close> is called.\<close>

definition mk_shutdown :: shutdown where
  "mk_shutdown = \<lparr>flag = True, joined = False, table = [], serving = (\<lambda>_. False),
     main_at = Entering, cleaner_at = Cleaner_test, worker_at = (\<lambda>_. Worker_gone),
     sessions_mutex = None, netlink_mutex = None\<rparr>"

text \<open>Where the main thread may be when the first signal arrives.\<close>

fun interruptible :: "main_point \<Rightarrow> bool" where
  "interruptible Entering = True"
| "interruptible Polling = True"
| "interruptible Accepting = True"
| "interruptible (Enrolling p) = True"
| "interruptible (Enrolled p) = True"
| "interruptible Replying = True"
| "interruptible m = False"

subsection \<open>Steps\<close>

text \<open>
  A session whose thread could not be started is one whose worker is gone: \<open>joinable\<close> is false
  where a join would return at once.
\<close>

inductive main_step :: "shutdown \<Rightarrow> shutdown \<Rightarrow> bool" where
  is_root: "main_at s = Entering \<Longrightarrow> main_step s (s\<lparr>main_at := Polling\<rparr>)"
| is_not_root: "main_at s = Entering \<Longrightarrow> main_step s (s\<lparr>main_at := Destructing\<rparr>)"
| poll_on: "main_at s = Polling \<Longrightarrow> flag s \<Longrightarrow> main_step s (s\<lparr>main_at := Accepting\<rparr>)"
| poll_off: "main_at s = Polling \<Longrightarrow> \<not> flag s \<Longrightarrow> main_step s (s\<lparr>main_at := Closing\<rparr>)"
| no_client: "main_at s = Accepting \<Longrightarrow> main_step s (s\<lparr>main_at := Polling\<rparr>)"
| client: "main_at s = Accepting \<Longrightarrow> main_step s (s\<lparr>main_at := Enrolling p\<rparr>)"
| enrol: "main_at s = Enrolling p \<Longrightarrow> sessions_mutex s = None
    \<Longrightarrow> main_step s (s\<lparr>main_at := Enrolled p, sessions_mutex := Some Main_thread\<rparr>)"
| known: "main_at s = Enrolled p \<Longrightarrow> p \<in> set (table s) \<Longrightarrow> main_step s (s\<lparr>main_at := Replying\<rparr>)"
| no_socket: "main_at s = Enrolled p \<Longrightarrow> p \<notin> set (table s)
    \<Longrightarrow> main_step s (s\<lparr>main_at := Polling, sessions_mutex := None\<rparr>)"
| no_thread: "main_at s = Enrolled p \<Longrightarrow> p \<notin> set (table s)
    \<Longrightarrow> main_step s (s\<lparr>main_at := Polling, sessions_mutex := None, table := p # table s,
          serving := (serving s)(p := True)\<rparr>)"
| new_session: "main_at s = Enrolled p \<Longrightarrow> p \<notin> set (table s)
    \<Longrightarrow> main_step s (s\<lparr>main_at := Replying, table := p # table s,
          serving := (serving s)(p := True), worker_at := (worker_at s)(p := Worker_test)\<rparr>)"
| reply: "main_at s = Replying
    \<Longrightarrow> main_step s (s\<lparr>main_at := Polling, sessions_mutex := None\<rparr>)"
| signal: "flag s \<Longrightarrow> interruptible (main_at s)
    \<Longrightarrow> main_step s (s\<lparr>flag := False, main_at := Handling (main_at s)\<rparr>)"
| handled: "main_at s = Handling m \<Longrightarrow> joined s \<or> cleaner_at s = Cleaned
    \<Longrightarrow> main_step s (s\<lparr>joined := True, main_at := m\<rparr>)"
| close: "main_at s = Closing \<Longrightarrow> sessions_mutex s = None
    \<Longrightarrow> main_step s (s\<lparr>main_at := Ending (table s), sessions_mutex := Some Main_thread\<rparr>)"
| end_next: "main_at s = Ending (p # ps)
    \<Longrightarrow> main_step s (s\<lparr>main_at := Waiting p ps, serving := (serving s)(p := False)\<rparr>)"
| end_join: "main_at s = Waiting p ps \<Longrightarrow> worker_at s p = Worker_gone
    \<Longrightarrow> main_step s (s\<lparr>main_at := Ending ps\<rparr>)"
| end_all: "main_at s = Ending []
    \<Longrightarrow> main_step s (s\<lparr>main_at := Destructing, table := [], sessions_mutex := None\<rparr>)"
| destruct: "main_at s = Destructing
    \<Longrightarrow> main_step s (s\<lparr>flag := False, main_at := Last_join\<rparr>)"
| last_join: "main_at s = Last_join \<Longrightarrow> joined s \<or> cleaner_at s = Cleaned
    \<Longrightarrow> main_step s (s\<lparr>joined := True, main_at := Gone\<rparr>)"

inductive cleaner_step :: "shutdown \<Rightarrow> shutdown \<Rightarrow> bool" where
  go_on: "cleaner_at s = Cleaner_test \<Longrightarrow> flag s \<Longrightarrow> cleaner_step s (s\<lparr>cleaner_at := Asleep\<rparr>)"
| go_off: "cleaner_at s = Cleaner_test \<Longrightarrow> \<not> flag s \<Longrightarrow> cleaner_step s (s\<lparr>cleaner_at := Cleaned\<rparr>)"
| wake: "cleaner_at s = Asleep \<Longrightarrow> cleaner_step s (s\<lparr>cleaner_at := Locking_table\<rparr>)"
| lock_table: "cleaner_at s = Locking_table \<Longrightarrow> sessions_mutex s = None
    \<Longrightarrow> cleaner_step s
          (s\<lparr>cleaner_at := Sweeping (table s), sessions_mutex := Some Cleanup_thread\<rparr>)"
| keep_session: "cleaner_at s = Sweeping (p # ps)
    \<Longrightarrow> cleaner_step s (s\<lparr>cleaner_at := Sweeping ps\<rparr>)"
| drop_session: "cleaner_at s = Sweeping (p # ps)
    \<Longrightarrow> cleaner_step s (s\<lparr>cleaner_at := Joining p ps, serving := (serving s)(p := False)\<rparr>)"
| dropped: "cleaner_at s = Joining p ps \<Longrightarrow> worker_at s p = Worker_gone
    \<Longrightarrow> cleaner_step s (s\<lparr>cleaner_at := Sweeping ps, table := remove1 p (table s)\<rparr>)"
| swept_all: "cleaner_at s = Sweeping []
    \<Longrightarrow> cleaner_step s (s\<lparr>cleaner_at := Cleaner_test, sessions_mutex := None\<rparr>)"

inductive worker_step :: "pid \<Rightarrow> shutdown \<Rightarrow> shutdown \<Rightarrow> bool" for p where
  serve_on: "worker_at s p = Worker_test \<Longrightarrow> serving s p \<Longrightarrow> flag s
    \<Longrightarrow> worker_step p s (s\<lparr>worker_at := (worker_at s)(p := Worker_accept)\<rparr>)"
| serve_off: "worker_at s p = Worker_test \<Longrightarrow> \<not> (serving s p \<and> flag s)
    \<Longrightarrow> worker_step p s (s\<lparr>worker_at := (worker_at s)(p := Worker_gone)\<rparr>)"
| no_request: "worker_at s p = Worker_accept
    \<Longrightarrow> worker_step p s (s\<lparr>worker_at := (worker_at s)(p := Worker_test)\<rparr>)"
| request: "worker_at s p = Worker_accept
    \<Longrightarrow> worker_step p s (s\<lparr>worker_at := (worker_at s)(p := Wants_netlink)\<rparr>)"
| lock_netlink: "worker_at s p = Wants_netlink \<Longrightarrow> netlink_mutex s = None
    \<Longrightarrow> worker_step p s
          (s\<lparr>worker_at := (worker_at s)(p := Has_netlink), netlink_mutex := Some p\<rparr>)"
| respond: "worker_at s p = Has_netlink
    \<Longrightarrow> worker_step p s
          (s\<lparr>worker_at := (worker_at s)(p := Worker_test), netlink_mutex := None\<rparr>)"

code_pred (modes: i \<Rightarrow> o \<Rightarrow> bool) cleaner_step .

code_pred (modes: i \<Rightarrow> i \<Rightarrow> o \<Rightarrow> bool) worker_step .

text \<open>A step of any thread.\<close>

definition shutdown_step :: "shutdown \<Rightarrow> shutdown \<Rightarrow> bool" where
  "shutdown_step s s' \<longleftrightarrow> main_step s s' \<or> cleaner_step s s' \<or> (\<exists>p. worker_step p s s')"

inductive_cases main_stepE: "main_step s s'"
inductive_cases cleaner_stepE: "cleaner_step s s'"
inductive_cases worker_stepE: "worker_step p s s'"

abbreviation stuck :: "shutdown \<Rightarrow> bool" where
  "stuck s \<equiv> \<nexists>s'. shutdown_step s s'"

subsection \<open>The locks and their owners\<close>

text \<open>Where the main thread, and where the cleanup thread, holds \<open>sessions_mutex_\<close>.\<close>

fun holds_table :: "main_point \<Rightarrow> bool" where
  "holds_table (Enrolled p) = True"
| "holds_table Replying = True"
| "holds_table (Ending ps) = True"
| "holds_table (Waiting p ps) = True"
| "holds_table (Handling m) = holds_table m"
| "holds_table m = False"

fun sweeping :: "cleaner_point \<Rightarrow> bool" where
  "sweeping (Sweeping ps) = True"
| "sweeping (Joining p ps) = True"
| "sweeping c = False"

text \<open>
  Every mutex is held by the thread that is past its lock; only a session of the table has a
  worker that is not gone; in the loop of \<open>cleanup_sessions\<close> the workers of the sessions passed are
  gone.
\<close>

fun passed :: "main_point \<Rightarrow> pid list \<Rightarrow> pid set" where
  "passed (Ending ps) ks = set ks - set ps"
| "passed (Waiting p ps) ks = set ks - insert p (set ps)"
| "passed m ks = {}"

definition table_owned :: "shutdown \<Rightarrow> bool" where
  "table_owned s \<longleftrightarrow> (sessions_mutex s = Some Main_thread) = holds_table (main_at s)
     \<and> (sessions_mutex s = Some Cleanup_thread) = sweeping (cleaner_at s)"

definition netlink_owned :: "shutdown \<Rightarrow> bool" where
  "netlink_owned s \<longleftrightarrow> (\<forall>p. (worker_at s p = Has_netlink) = (netlink_mutex s = Some p))"

definition workers_filed :: "shutdown \<Rightarrow> bool" where
  "workers_filed s \<longleftrightarrow> (\<forall>p. p \<notin> set (table s) \<longrightarrow> worker_at s p = Worker_gone)
     \<and> (\<forall>p \<in> passed (main_at s) (table s). worker_at s p = Worker_gone)"

text \<open>
  A handler runs on top of a point that it may interrupt, and then the flag is down; before the
  loop and after \<open>cleanup_sessions\<close> there are no sessions; past the destructor's first line the
  flag is down, and past its end the cleanup thread has been joined; only one that has ended has.
\<close>

fun point_ok :: "main_point \<Rightarrow> bool \<Rightarrow> pid list \<Rightarrow> bool" where
  "point_ok (Handling m) up ks = (interruptible m \<and> \<not> up \<and> point_ok m up ks)"
| "point_ok Entering up ks = (ks = [])"
| "point_ok Destructing up ks = (ks = [])"
| "point_ok Last_join up ks = (ks = [] \<and> \<not> up)"
| "point_ok Gone up ks = (ks = [] \<and> \<not> up)"
| "point_ok m up ks = True"

abbreviation at_ok :: "shutdown \<Rightarrow> bool" where
  "at_ok s \<equiv> point_ok (main_at s) (flag s) (table s) \<and> (joined s \<longrightarrow> cleaner_at s = Cleaned)
     \<and> (main_at s = Gone \<longrightarrow> joined s)"

lemma holds_table_passed: "\<not> holds_table m \<Longrightarrow> passed m ks = {}"
  by (cases m) auto

lemma interruptible_passed: "interruptible m \<Longrightarrow> passed m ks = {}"
  by (cases m) auto

lemma interruptible_point_ok: "interruptible m \<Longrightarrow> point_ok m up ks \<Longrightarrow> point_ok m up' ks"
  by (cases m) auto

lemma point_ok_smaller: "point_ok m up ks \<Longrightarrow> point_ok m up (remove1 p ks)"
  by (induction m) auto

subsection \<open>Every step keeps them\<close>

lemma at_ok_main: "main_step s s' \<Longrightarrow> at_ok s \<Longrightarrow> at_ok s'"
  by (erule main_stepE) (simp_all, auto intro: interruptible_point_ok)

lemma at_ok_cleaner: "cleaner_step s s' \<Longrightarrow> at_ok s \<Longrightarrow> at_ok s'"
  by (erule cleaner_stepE) (auto simp: point_ok_smaller)

lemma at_ok_worker: "worker_step p s s' \<Longrightarrow> at_ok s \<Longrightarrow> at_ok s'"
  by (erule worker_stepE) simp_all

lemma table_owned_main: "main_step s s' \<Longrightarrow> table_owned s \<Longrightarrow> table_owned s'"
  by (erule main_stepE) (auto simp: table_owned_def)

lemma netlink_owned_main:
  "main_step s s' \<Longrightarrow> netlink_owned s \<Longrightarrow> workers_filed s \<Longrightarrow> netlink_owned s'"
  by (erule main_stepE; simp add: netlink_owned_def workers_filed_def; force?)

lemma workers_filed_main:
  "main_step s s' \<Longrightarrow> at_ok s \<Longrightarrow> workers_filed s \<Longrightarrow> workers_filed s'"
  by (erule main_stepE; simp add: workers_filed_def interruptible_passed; force?)

lemma cleaner_step_others:
  "cleaner_step s s' \<Longrightarrow> main_at s' = main_at s \<and> flag s' = flag s \<and> worker_at s' = worker_at s
     \<and> netlink_mutex s' = netlink_mutex s"
  by (erule cleaner_stepE) simp_all

lemma table_owned_cleaner: "cleaner_step s s' \<Longrightarrow> table_owned s \<Longrightarrow> table_owned s'"
  by (erule cleaner_stepE) (auto simp: table_owned_def)

lemma remove_gone:
  assumes "\<forall>q. q \<notin> set ks \<longrightarrow> w q = Worker_gone" and "w p = Worker_gone"
  shows "q \<notin> set (remove1 p ks) \<Longrightarrow> w q = Worker_gone"
  using assms by (cases "q = p") auto

lemma cleaner_step_table:
  "cleaner_step s s' \<Longrightarrow> table s' = table s
     \<or> (\<exists>p. table s' = remove1 p (table s) \<and> worker_at s p = Worker_gone \<and> sweeping (cleaner_at s))"
  by (erule cleaner_stepE) auto

lemma workers_filed_cleaner:
  assumes "cleaner_step s s'" and "table_owned s" and "workers_filed s"
  shows "workers_filed s'"
  using cleaner_step_table [OF assms(1)]
proof (elim disjE exE conjE)
  assume "table s' = table s"
  then show ?thesis
    using assms(3) cleaner_step_others [OF assms(1)] by (simp add: workers_filed_def)
next
  fix p
  assume p: "table s' = remove1 p (table s)" "worker_at s p = Worker_gone" "sweeping (cleaner_at s)"
  then have "\<not> holds_table (main_at s)"
    using assms(2) by (auto simp: table_owned_def)
  then have "passed (main_at s) ks = {}" for ks
    by (rule holds_table_passed)
  then show ?thesis
    using assms(3) p cleaner_step_others [OF assms(1)]
      remove_gone [of "table s" "worker_at s" p]
    unfolding workers_filed_def by simp
qed

lemma worker_step_others:
  "worker_step p s s' \<Longrightarrow> main_at s' = main_at s \<and> cleaner_at s' = cleaner_at s \<and> flag s' = flag s
     \<and> table s' = table s \<and> sessions_mutex s' = sessions_mutex s
     \<and> worker_at s' = (worker_at s)(p := worker_at s' p) \<and> worker_at s p \<noteq> Worker_gone"
  by (erule worker_stepE) simp_all

lemma workers_filed_worker: "worker_step p s s' \<Longrightarrow> workers_filed s \<Longrightarrow> workers_filed s'"
  using worker_step_others [of p s s'] unfolding workers_filed_def
  by (metis fun_upd_apply)

lemma netlink_owned_worker:
  assumes "worker_step p s s'" and "netlink_owned s"
  shows "netlink_owned s'"
  using assms(1) spec [OF assms(2) [unfolded netlink_owned_def], of p] assms(2)
  by (elim worker_stepE) (auto simp: netlink_owned_def)

text \<open>The whole invariant.\<close>

definition shutdown_ok :: "shutdown \<Rightarrow> bool" where
  "shutdown_ok s \<longleftrightarrow> at_ok s \<and> table_owned s \<and> netlink_owned s \<and> workers_filed s"

lemma table_owned_worker: "worker_step p s s' \<Longrightarrow> table_owned s \<Longrightarrow> table_owned s'"
  using worker_step_others [of p s s'] by (simp add: table_owned_def)

lemma netlink_owned_cleaner: "cleaner_step s s' \<Longrightarrow> netlink_owned s \<Longrightarrow> netlink_owned s'"
  using cleaner_step_others [of s s'] by (simp add: netlink_owned_def)

lemma shutdown_ok_step:
  assumes "shutdown_step s s'" and "shutdown_ok s"
  shows "shutdown_ok s'"
proof -
  from assms(1) consider "main_step s s'" | "cleaner_step s s'" | p where "worker_step p s s'"
    by (auto simp: shutdown_step_def)
  then show ?thesis
  proof cases
    case 1
    with assms(2) show ?thesis
      by (simp add: shutdown_ok_def at_ok_main table_owned_main netlink_owned_main
          workers_filed_main)
  next
    case 2
    with assms(2) show ?thesis
      by (simp add: shutdown_ok_def at_ok_cleaner table_owned_cleaner netlink_owned_cleaner workers_filed_cleaner)
  next
    case 3
    then show ?thesis
      using assms(2) at_ok_worker [OF 3] table_owned_worker [OF 3] netlink_owned_worker [OF 3]
        workers_filed_worker [OF 3] unfolding shutdown_ok_def by blast
  qed
qed

lemma shutdown_ok_initial: "shutdown_ok mk_shutdown"
  by (simp add: shutdown_ok_def mk_shutdown_def table_owned_def netlink_owned_def workers_filed_def)

lemma shutdown_ok_reachable: "shutdown_step\<^sup>*\<^sup>* s s' \<Longrightarrow> shutdown_ok s \<Longrightarrow> shutdown_ok s'"
  by (induction rule: rtranclp_induct) (simp_all add: shutdown_ok_step)

lemma main_step_table:
  "main_step s s' \<Longrightarrow> set (table s) \<subseteq> set (table s') \<or> (table s' = [] \<and> main_at s = Ending [])"
  by (erule main_stepE) auto

text \<open>What a step may take out of the table.\<close>

lemma dropped_step:
  assumes "shutdown_step s s'" and "shutdown_ok s" and "p \<in> set (table s)" and "p \<notin> set (table s')"
  shows "worker_at s p = Worker_gone \<and> sessions_mutex s \<noteq> None"
proof -
  from assms(1) consider "main_step s s'" | "cleaner_step s s'" | q where "worker_step q s s'"
    by (auto simp: shutdown_step_def)
  then show ?thesis
  proof cases
    case 1
    then have "main_at s = Ending []"
      using main_step_table [OF 1] assms(3,4) by auto
    then show ?thesis
      using assms(2,3) by (auto simp: shutdown_ok_def table_owned_def workers_filed_def)
  next
    case 2
    obtain q where q: "table s' = remove1 q (table s)" "worker_at s q = Worker_gone"
        "sweeping (cleaner_at s)"
      using cleaner_step_table [OF 2] assms(3,4) by auto
    then have "p = q"
      using assms(3,4) by (metis in_set_remove1)
    then show ?thesis
      using q assms(2) by (auto simp: shutdown_ok_def table_owned_def)
  next
    case 3
    then show ?thesis
      using worker_step_others [OF 3] assms(3,4) by simp
  qed
qed

subsection \<open>Where the daemon can come to rest\<close>

definition finished :: "shutdown \<Rightarrow> bool" where
  "finished s \<longleftrightarrow> main_at s = Gone \<and> cleaner_at s = Cleaned \<and> (\<forall>p. worker_at s p = Worker_gone)
     \<and> table s = [] \<and> sessions_mutex s = None \<and> netlink_mutex s = None"

text \<open>
  The main thread is in the signal handler, waiting for the cleanup thread, on top of a
  registration that holds the lock the cleanup thread waits for.
\<close>

definition wedged :: "shutdown \<Rightarrow> bool" where
  "wedged s \<longleftrightarrow> (\<exists>m. main_at s = Handling m \<and> holds_table m) \<and> cleaner_at s = Locking_table
     \<and> (\<forall>p. worker_at s p = Worker_gone)"

inductive_simps main_step_iff: "main_step s s'"
inductive_simps cleaner_step_iff: "cleaner_step s s'"
inductive_simps worker_step_iff: "worker_step p s s'"

lemma stuckD:
  "stuck s \<Longrightarrow> \<forall>s'. \<not> main_step s s'" "stuck s \<Longrightarrow> \<forall>s'. \<not> cleaner_step s s'"
  "stuck s \<Longrightarrow> \<forall>s'. \<not> worker_step p s s'"
  by (auto simp: shutdown_step_def)

lemma stuck_worker:
  assumes "stuck s" and "netlink_owned s"
  shows "worker_at s p = Worker_gone"
proof -
  have busy: "worker_at s q \<noteq> Has_netlink" for q
    using stuckD(3) [OF assms(1), of q] by (auto simp: worker_step_iff)
  then have "netlink_mutex s = None"
    using assms(2) by (cases "netlink_mutex s") (auto simp: netlink_owned_def)
  then show ?thesis
    using stuckD(3) [OF assms(1), of p] busy [of p]
    by (cases "worker_at s p") (simp_all add: worker_step_iff all_conj_distrib, blast)
qed

lemma stuck_cleaner:
  assumes "stuck s" and "\<And>p. worker_at s p = Worker_gone"
  shows "cleaner_at s = Cleaned \<or> (cleaner_at s = Locking_table \<and> sessions_mutex s \<noteq> None)"
  using stuckD(2) [OF assms(1)] assms(2)
  by (cases "cleaner_at s" rule: sweeping.cases)
    (simp_all add: cleaner_step_iff all_conj_distrib neq_Nil_conv, blast)

lemma stuck_main:
  assumes "stuck s" and "\<And>p. worker_at s p = Worker_gone"
  shows "main_at s = Gone
     \<or> ((\<exists>p. main_at s = Enrolling p) \<or> main_at s = Closing) \<and> sessions_mutex s \<noteq> None
     \<or> ((\<exists>m. main_at s = Handling m) \<or> main_at s = Last_join) \<and> cleaner_at s \<noteq> Cleaned"
  using stuckD(1) [OF assms(1)] assms(2)
  by (cases "main_at s")
    (simp_all add: main_step_iff all_conj_distrib neq_Nil_conv, blast+)

lemma stuck_end:
  assumes "shutdown_ok s" and "stuck s"
  shows "finished s \<or> wedged s"
proof -
  note ok = assms(1) [unfolded shutdown_ok_def table_owned_def]
  have workers: "worker_at s p = Worker_gone" for p
    using stuck_worker [OF assms(2)] ok by blast
  then have nl: "netlink_mutex s = None"
    using ok by (cases "netlink_mutex s") (auto simp: netlink_owned_def)
  from stuck_cleaner [OF assms(2) workers] show ?thesis
  proof
    assume c: "cleaner_at s = Cleaned"
    with ok stuck_main [OF assms(2) workers] show ?thesis
      using nl workers
      by (cases "sessions_mutex s"; auto simp: finished_def; cases "the (sessions_mutex s)"; auto)
  next
    assume c: "cleaner_at s = Locking_table \<and> sessions_mutex s \<noteq> None"
    with ok have "sessions_mutex s = Some Main_thread"
      by (cases "sessions_mutex s"; cases "the (sessions_mutex s)") auto
    with ok c stuck_main [OF assms(2) workers] show ?thesis
      using workers by (auto simp: wedged_def)
  qed
qed

subsection \<open>How much is left to do once the flag is down\<close>

fun worker_work :: "worker_point \<Rightarrow> nat" where
  "worker_work Worker_gone = 0"
| "worker_work Worker_test = 1"
| "worker_work Has_netlink = 2"
| "worker_work Wants_netlink = 3"
| "worker_work Worker_accept = 4"

fun cleaner_work :: "cleaner_point \<Rightarrow> nat \<Rightarrow> nat" where
  "cleaner_work Cleaned n = 0"
| "cleaner_work Cleaner_test n = 1"
| "cleaner_work (Sweeping ps) n = 2 + 2 * length ps"
| "cleaner_work (Joining p ps) n = 3 + 2 * length ps"
| "cleaner_work Locking_table n = 3 + 2 * n"
| "cleaner_work Asleep n = 4 + 2 * n"

fun main_work :: "main_point \<Rightarrow> nat \<Rightarrow> nat" where
  "main_work Gone n = 0"
| "main_work Last_join n = 1"
| "main_work Destructing n = 2"
| "main_work (Ending ps) n = 3 + 2 * length ps"
| "main_work (Waiting p ps) n = 4 + 2 * length ps"
| "main_work Closing n = 4 + 2 * n"
| "main_work Polling n = 5 + 2 * n"
| "main_work Replying n = 6 + 2 * n"
| "main_work (Enrolled p) n = 12 + 2 * n"
| "main_work (Enrolling p) n = 13 + 2 * n"
| "main_work Accepting n = 14 + 2 * n"
| "main_work Entering n = 6 + 2 * n"
| "main_work (Handling m) n = 1 + main_work m n"

definition workers_work :: "(pid \<Rightarrow> worker_point) \<Rightarrow> pid list \<Rightarrow> nat" where
  "workers_work w ps = sum_list (map (\<lambda>p. worker_work (w p)) ps)"

definition work_left :: "shutdown \<Rightarrow> nat" where
  "work_left s = main_work (main_at s) (length (table s)) + cleaner_work (cleaner_at s) (length (table s))
     + workers_work (worker_at s) (table s)"

lemma main_work_mono: "m \<le> n \<Longrightarrow> main_work x m \<le> main_work x n"
  by (induction x) simp_all

lemma cleaner_work_mono:
  "m \<le> n \<Longrightarrow> cleaner_work x m \<le> cleaner_work x n"
  "cleaner_work x (Suc n) \<le> 2 + cleaner_work x n"
  by (cases x; simp)+

lemma workers_work_simps [simp]:
  "workers_work w [] = 0"
  "workers_work w (p # ps) = worker_work (w p) + workers_work w ps"
  by (simp_all add: workers_work_def)

lemma workers_work_other: "p \<notin> set ps \<Longrightarrow> workers_work (w(p := x)) ps = workers_work w ps"
  by (induction ps) auto

lemma workers_work_remove: "workers_work w (remove1 p ps) \<le> workers_work w ps"
  by (induction ps) auto

lemma workers_work_le: "worker_work x \<le> worker_work (w p) \<Longrightarrow> workers_work (w(p := x)) ps \<le> workers_work w ps"
  by (induction ps) (auto intro: add_mono)

lemma workers_work_less:
  "p \<in> set ps \<Longrightarrow> worker_work x < worker_work (w p)
     \<Longrightarrow> workers_work (w(p := x)) ps < workers_work w ps"
proof (induction ps)
  case (Cons q ps)
  then show ?case
    using workers_work_le [of x w p ps]
    by (cases "q = p") (auto simp del: fun_upd_apply simp add: fun_upd_def [of w] add_less_le_mono)
qed simp

lemma work_main:
  assumes "main_step s s'" and "\<not> flag s" and "workers_filed s"
  shows "work_left s' < work_left s"
proof -
  have "p \<notin> set (table s) \<Longrightarrow> worker_at s p = Worker_gone" for p
    using assms(3) by (simp add: workers_filed_def)
  moreover note cleaner_work_mono(1) [of 0 "length (table s)" "cleaner_at s"]
    cleaner_work_mono(2) [of "cleaner_at s" "length (table s)"]
  ultimately show ?thesis
    using assms(1,2) by (elim main_stepE) (simp_all add: work_left_def workers_work_other)
qed

lemma work_cleaner:
  assumes "cleaner_step s s'" and "\<not> flag s"
  shows "work_left s' < work_left s"
proof -
  have "main_work x (length (remove1 p ps)) \<le> main_work x (length ps)" for x and p :: pid and ps
    by (rule main_work_mono) (simp add: length_remove1)
  note add_mono [OF this workers_work_remove]
  then show ?thesis
    using assms by (elim cleaner_stepE) (simp_all add: work_left_def less_Suc_eq_le)
qed

lemma work_worker:
  assumes "worker_step p s s'" and "\<not> flag s" and "workers_filed s"
  shows "work_left s' < work_left s"
proof -
  have "p \<in> set (table s)"
    using worker_step_others [OF assms(1)] assms(3) by (auto simp: workers_filed_def)
  then show ?thesis
    using assms(1,2) by (elim worker_stepE) (simp_all add: work_left_def workers_work_less)
qed

lemma flag_down: "shutdown_step s s' \<Longrightarrow> \<not> flag s \<Longrightarrow> \<not> flag s'"
  unfolding shutdown_step_def
  by (elim disjE exE; (drule cleaner_step_others worker_step_others)?; (erule main_stepE)?) simp_all

lemma work_step: "shutdown_step s s' \<Longrightarrow> \<not> flag s \<Longrightarrow> shutdown_ok s \<Longrightarrow> work_left s' < work_left s"
  unfolding shutdown_step_def shutdown_ok_def by (auto intro: work_main work_cleaner work_worker)

lemma run_bounded:
  "(shutdown_step ^^ n) s s' \<Longrightarrow> shutdown_ok s \<Longrightarrow> \<not> flag s
     \<Longrightarrow> n + work_left s' \<le> work_left s \<and> shutdown_ok s' \<and> \<not> flag s'"
proof (induction n arbitrary: s')
  case (Suc n)
  then obtain t where t: "(shutdown_step ^^ n) s t" "shutdown_step t s'"
    by (auto elim: relpowp_Suc_E)
  then show ?case
    using Suc.IH [OF t(1) Suc.prems(2,3)] work_step [OF t(2)] flag_down [OF t(2)]
      shutdown_ok_step [OF t(2)] by auto
qed simp

text \<open>
  In numbers: the loops over the table go over no more sessions than it has, as long as they hold its
  lock; so the work left is bounded by the number of sessions.
\<close>

fun main_fits :: "main_point \<Rightarrow> nat \<Rightarrow> bool" where
  "main_fits (Ending ps) n = (length ps \<le> n)"
| "main_fits (Waiting p ps) n = (length ps < n)"
| "main_fits m n = True"

fun cleaner_fits :: "cleaner_point \<Rightarrow> nat \<Rightarrow> bool" where
  "cleaner_fits (Sweeping ps) n = (length ps \<le> n)"
| "cleaner_fits (Joining p ps) n = (length ps < n)"
| "cleaner_fits c n = True"

abbreviation loops_fit :: "shutdown \<Rightarrow> bool" where
  "loops_fit s \<equiv> main_fits (main_at s) (length (table s)) \<and> cleaner_fits (cleaner_at s) (length (table s))"

lemma fits_free: "\<not> holds_table m \<Longrightarrow> main_fits m n" "\<not> sweeping c \<Longrightarrow> cleaner_fits c n"
  by (cases m; simp) (cases c; simp)

lemma fits_mono: "m \<le> n \<Longrightarrow> cleaner_fits c m \<Longrightarrow> cleaner_fits c n"
  by (cases c) auto

lemma loops_fit_main: "main_step s s' \<Longrightarrow> table_owned s \<Longrightarrow> at_ok s \<Longrightarrow> loops_fit s \<Longrightarrow> loops_fit s'"
  by (erule main_stepE)
    (auto simp: table_owned_def fits_free elim: fits_mono [rotated] interruptible.elims)

lemma loops_fit_cleaner: "cleaner_step s s' \<Longrightarrow> table_owned s \<Longrightarrow> loops_fit s \<Longrightarrow> loops_fit s'"
  by (erule cleaner_stepE) (auto simp: table_owned_def fits_free length_remove1)

lemma loops_fit_reachable: "shutdown_step\<^sup>*\<^sup>* mk_shutdown s \<Longrightarrow> loops_fit s \<and> shutdown_ok s"
proof (induction rule: rtranclp_induct)
  case base
  then show ?case
    using shutdown_ok_initial by (simp add: mk_shutdown_def)
next
  case (step s s')
  from step.hyps(2) consider "main_step s s'" | "cleaner_step s s'" | p where "worker_step p s s'"
    by (auto simp: shutdown_step_def)
  then have "loops_fit s'"
  proof cases
    case 1
    with step.IH show ?thesis by (simp add: loops_fit_main shutdown_ok_def)
  next
    case 2
    with step.IH show ?thesis by (simp add: loops_fit_cleaner shutdown_ok_def)
  next
    case 3
    with step.IH show ?thesis using worker_step_others [OF 3] by simp
  qed
  with step show ?case using shutdown_ok_step by blast
qed

lemma work_left_sessions:
  assumes "shutdown_step\<^sup>*\<^sup>* mk_shutdown s"
  shows "work_left s \<le> 19 + 8 * length (table s)"
proof -
  have fit: "loops_fit s" and ok: "at_ok s"
    using loops_fit_reachable [OF assms] by (auto simp: shutdown_ok_def)
  let ?n = "length (table s)"
  have below: "main_work m ?n \<le> 14 + 2 * ?n" if "interruptible m" for m
    using that by (cases m) auto
  have "main_work (main_at s) ?n \<le> 15 + 2 * ?n"
    using fit ok below by (cases "main_at s") auto
  moreover have "cleaner_work (cleaner_at s) ?n \<le> 4 + 2 * ?n"
    using fit by (cases "cleaner_at s") auto
  moreover have "workers_work (worker_at s) ps \<le> 4 * length ps" for ps
  proof (induction ps)
    case (Cons p ps)
    then show ?case by (cases "worker_at s p") auto
  qed simp
  note this [of "table s"]
  ultimately show ?thesis
    by (simp add: work_left_def)
qed

text \<open>Whether the main thread may still register a client although the flag is down.\<close>

fun may_enrol :: "main_point \<Rightarrow> nat" where
  "may_enrol Accepting = 1"
| "may_enrol (Enrolling p) = 1"
| "may_enrol (Enrolled p) = 1"
| "may_enrol (Handling m) = may_enrol m"
| "may_enrol m = 0"

lemma may_enrol_le: "may_enrol m \<le> 1"
  by (induction m) auto

lemma enrolments_left:
  "shutdown_step s s' \<Longrightarrow> \<not> flag s
     \<Longrightarrow> length (table s') + may_enrol (main_at s') \<le> length (table s) + may_enrol (main_at s)"
  unfolding shutdown_step_def
proof (elim disjE exE)
  assume "cleaner_step s s'"
  then show ?thesis
    using cleaner_step_others [of s s'] cleaner_step_table [of s s'] by (auto simp: length_remove1)
next
  fix p
  assume "worker_step p s s'"
  then show ?thesis
    using worker_step_others [of p s s'] by simp
next
  assume "main_step s s'" and "\<not> flag s"
  then show ?thesis
    by (elim main_stepE) simp_all
qed

text \<open>So every run comes to rest.\<close>

lemma run_ends:
  "shutdown_ok s \<Longrightarrow> \<not> flag s \<Longrightarrow> \<exists>s'. shutdown_step\<^sup>*\<^sup>* s s' \<and> stuck s'"
proof (induction "work_left s" arbitrary: s rule: less_induct)
  case less
  show ?case
  proof (cases "stuck s")
    case True
    then show ?thesis by blast
  next
    case False
    then obtain t where t: "shutdown_step s t" by blast
    with less.hyps [OF work_step [OF t]] less.prems shutdown_ok_step [OF t] flag_down [OF t]
    show ?thesis by (meson converse_rtranclp_into_rtranclp)
  qed
qed

text \<open>A predicate that steps keep with the flag down is kept by runs.\<close>

lemma run_keeps:
  assumes "\<And>t t'. shutdown_step t t' \<Longrightarrow> shutdown_ok t \<Longrightarrow> \<not> flag t \<Longrightarrow> P t \<Longrightarrow> P t'"
    and "shutdown_step\<^sup>*\<^sup>* s s'" and "shutdown_ok s" and "\<not> flag s" and "P s"
  shows "P s' \<and> shutdown_ok s' \<and> \<not> flag s'"
  using assms(2-5)
  by (induction rule: rtranclp_induct) (auto intro: assms(1) shutdown_ok_step dest: flag_down)

text \<open>Whether the handler, if it runs, runs on top of a point that holds the table's lock.\<close>

fun under_lock :: "main_point \<Rightarrow> bool" where
  "under_lock (Handling m) = holds_table m"
| "under_lock m = False"

lemma under_lock_step:
  "shutdown_step s s' \<Longrightarrow> shutdown_ok s \<Longrightarrow> \<not> flag s \<Longrightarrow> \<not> under_lock (main_at s)
     \<Longrightarrow> \<not> under_lock (main_at s')"
proof -
  have top: "interruptible m \<Longrightarrow> \<not> under_lock m" for m by (cases m) auto
  show "shutdown_step s s' \<Longrightarrow> shutdown_ok s \<Longrightarrow> \<not> flag s \<Longrightarrow> \<not> under_lock (main_at s)
     \<Longrightarrow> \<not> under_lock (main_at s')"
    unfolding shutdown_step_def shutdown_ok_def
    by (elim disjE exE conjE; (drule cleaner_step_others worker_step_others)?; (erule main_stepE)?)
      (simp_all add: top)
qed

text \<open>The handler waits while the cleanup thread sleeps or waits.\<close>

definition doomed :: "main_point \<Rightarrow> shutdown \<Rightarrow> bool" where
  "doomed m s \<longleftrightarrow> main_at s = Handling m \<and> holds_table m \<and> cleaner_at s \<in> {Asleep, Locking_table}"

lemma doomed_step:
  assumes "shutdown_step s s'" and "shutdown_ok s" and "doomed m s"
  shows "doomed m s'"
proof -
  have "sessions_mutex s = Some Main_thread" and "\<not> joined s"
    using assms(2,3) by (auto simp: shutdown_ok_def table_owned_def doomed_def)
  then show ?thesis
    using assms(1,3) worker_step_others [of _ s s'] unfolding shutdown_step_def doomed_def
    by (elim disjE exE conjE) (auto elim!: main_stepE cleaner_stepE)
qed

subsection \<open>Two runs\<close>

lemma reach_main: "shutdown_step\<^sup>*\<^sup>* s t \<Longrightarrow> main_step t t' \<Longrightarrow> shutdown_step\<^sup>*\<^sup>* s t'"
  by (auto simp: shutdown_step_def intro: rtranclp.rtrancl_into_rtrancl)

lemma reach_cleaner: "shutdown_step\<^sup>*\<^sup>* s t \<Longrightarrow> cleaner_step t t' \<Longrightarrow> shutdown_step\<^sup>*\<^sup>* s t'"
  by (auto simp: shutdown_step_def intro: rtranclp.rtrancl_into_rtrancl)

text \<open>The cleanup thread sleeps and the first client is being registered.\<close>

definition first_client :: shutdown where
  "first_client = mk_shutdown\<lparr>main_at := Enrolled 7, cleaner_at := Asleep,
     sessions_mutex := Some Main_thread\<rparr>"

lemma first_client_reached: "shutdown_step\<^sup>*\<^sup>* mk_shutdown first_client"
proof -
  have "shutdown_step\<^sup>*\<^sup>* mk_shutdown (mk_shutdown\<lparr>cleaner_at := Asleep\<rparr>)"
    by (rule reach_cleaner [OF rtranclp.rtrancl_refl]) (simp add: cleaner_step_iff mk_shutdown_def)
  then have "shutdown_step\<^sup>*\<^sup>* mk_shutdown (mk_shutdown\<lparr>cleaner_at := Asleep, main_at := Polling\<rparr>)"
    by (rule reach_main) (simp add: main_step_iff mk_shutdown_def)
  then have "shutdown_step\<^sup>*\<^sup>* mk_shutdown (mk_shutdown\<lparr>cleaner_at := Asleep, main_at := Accepting\<rparr>)"
    by (rule reach_main) (simp add: main_step_iff mk_shutdown_def)
  then have "shutdown_step\<^sup>*\<^sup>* mk_shutdown
      (mk_shutdown\<lparr>cleaner_at := Asleep, main_at := Enrolling 7\<rparr>)"
    by (rule reach_main) (simp add: main_step_iff mk_shutdown_def)
  then show ?thesis
    by (rule reach_main) (simp add: main_step_iff mk_shutdown_def first_client_def)
qed

text \<open>The signal arrives there; or after the registration, with a worker at its test.\<close>

definition caught :: shutdown where
  "caught = first_client\<lparr>flag := False, main_at := Handling (Enrolled 7)\<rparr>"

lemma caught_reached: "shutdown_step\<^sup>*\<^sup>* mk_shutdown caught"
  by (rule reach_main [OF first_client_reached])
    (simp add: main_step_iff mk_shutdown_def first_client_def caught_def)

definition one_session :: shutdown where
  "one_session = first_client\<lparr>main_at := Replying, table := [7],
     serving := (\<lambda>p. p = 7), worker_at := (\<lambda>_. Worker_gone)(7 := Worker_test)\<rparr>"

definition told_to_stop :: shutdown where
  "told_to_stop = one_session\<lparr>flag := False, sessions_mutex := None, main_at := Handling Polling\<rparr>"

lemma told_to_stop_reached: "shutdown_step\<^sup>*\<^sup>* mk_shutdown told_to_stop"
proof -
  have "shutdown_step\<^sup>*\<^sup>* mk_shutdown one_session"
    by (rule reach_main [OF first_client_reached])
      (auto simp: main_step_iff mk_shutdown_def first_client_def one_session_def fun_eq_iff)
  then have "shutdown_step\<^sup>*\<^sup>* mk_shutdown
      (one_session\<lparr>sessions_mutex := None, main_at := Polling\<rparr>)"
    by (rule reach_main) (simp add: main_step_iff one_session_def)
  then show ?thesis
    by (rule reach_main)
      (simp add: main_step_iff one_session_def told_to_stop_def first_client_def mk_shutdown_def)
qed

text \<open>Once the flag is down, unless the main thread was interrupted under the lock.\<close>

lemma stopping_ends:
  assumes "shutdown_step\<^sup>*\<^sup>* mk_shutdown s" and "\<not> flag s" and "\<not> under_lock (main_at s)"
  shows "(\<forall>n s'. (shutdown_step ^^ n) s s' \<longrightarrow>
            n \<le> work_left s \<and> ((\<forall>s''. \<not> shutdown_step s' s'') \<longrightarrow> finished s'))
     \<and> (\<exists>s'. shutdown_step\<^sup>*\<^sup>* s s' \<and> finished s')"
proof -
  have ok: "shutdown_ok s"
    using shutdown_ok_reachable [OF assms(1) shutdown_ok_initial] .
  have fin: "finished s'" if "shutdown_step\<^sup>*\<^sup>* s s'" and "stuck s'" for s'
    using run_keeps [OF _ that(1) ok assms(2), of "\<lambda>t. \<not> under_lock (main_at t)"]
      under_lock_step assms(3) stuck_end [OF _ that(2)] by (fastforce simp: wedged_def)
  show ?thesis
    using run_bounded [OF _ ok assms(2)] run_ends [OF ok assms(2)] fin relpowp_imp_rtranclp [of _ _ s]
    by (metis add_leD1)
qed

subsection \<open>Properties\<close>

text \<open>C9: The daemon's threads never block one another, but in one situation. Whatever has happened,
  as long as the daemon runs some thread can take a step; when none can, either everything is over
  (the main thread has returned, the other threads have ended, no session is left and no mutex
  is held), or a signal has hit the main thread inside a registration and the handler waits for
  the cleanup thread, which waits for the mutex of the registration.\<close>

theorem threads_block_only_in_handler:
  assumes "shutdown_step\<^sup>*\<^sup>* mk_shutdown s" and "\<forall>s'. \<not> shutdown_step s s'"
  shows "\<not> flag s \<and> (finished s \<or> wedged s)"
proof -
  have ok: "shutdown_ok s"
    using shutdown_ok_reachable [OF assms(1) shutdown_ok_initial] .
  with stuck_end assms(2) have "finished s \<or> wedged s" by blast
  then show ?thesis
    using ok by (auto simp: finished_def wedged_def shutdown_ok_def)
qed

theorem threads_block_only_in_handler_witness:
  "\<exists>s. shutdown_step\<^sup>*\<^sup>* mk_shutdown s \<and> (\<forall>s'. \<not> shutdown_step s s')
     \<and> \<not> flag s \<and> (finished s \<or> wedged s)"
proof -
  have "shutdown_ok told_to_stop" and "\<not> flag told_to_stop"
    using shutdown_ok_reachable [OF told_to_stop_reached shutdown_ok_initial]
    by (simp_all add: told_to_stop_def)
  from run_ends [OF this] obtain s where s: "shutdown_step\<^sup>*\<^sup>* told_to_stop s" "stuck s" by blast
  then have "shutdown_step\<^sup>*\<^sup>* mk_shutdown s"
    using told_to_stop_reached by simp
  with threads_block_only_in_handler [OF this] s(2) show ?thesis by blast
qed



text \<open>C12: From whatever point of its life, with every thread wherever it may be, a daemon that a signal
  told to stop outside a registration ends soon: every run of its threads, whichever way they are
  scheduled, has at most nineteen steps and eight for each session it has then, and registers at most one more
  client; where none of the threads can go on, all of them have ended, no session is left and no
  mutex is held; and such a run exists.\<close>

theorem stopped_daemon_ends:
  assumes "shutdown_step\<^sup>*\<^sup>* mk_shutdown s" and "\<not> flag s" and "\<not> under_lock (main_at s)"
  shows "(\<forall>n s'. (shutdown_step ^^ n) s s' \<longrightarrow> n \<le> 19 + 8 * length (table s)
            \<and> length (table s') \<le> Suc (length (table s))
            \<and> ((\<forall>s''. \<not> shutdown_step s' s'') \<longrightarrow> finished s'))
     \<and> (\<exists>s'. shutdown_step\<^sup>*\<^sup>* s s' \<and> finished s')"
proof -
  have ok: "shutdown_ok s"
    using loops_fit_reachable [OF assms(1)] by blast
  have "length (table s') \<le> Suc (length (table s))" if "shutdown_step\<^sup>*\<^sup>* s s'" for s'
    using run_keeps [OF _ that ok assms(2), of "\<lambda>t. length (table t) + may_enrol (main_at t)
        \<le> length (table s) + may_enrol (main_at s)"] enrolments_left may_enrol_le [of "main_at s"]
    by (fastforce intro: order_trans)
  then show ?thesis
    using stopping_ends [OF assms] work_left_sessions [OF assms(1)] relpowp_imp_rtranclp [of _ _ s]
    by (meson order_trans)
qed

text \<open>A signal in the middle of the daemon's life: the main thread and a worker are in \<open>accept\<close>.\<close>

definition told_at_work :: shutdown where
  "told_at_work = told_to_stop\<lparr>main_at := Handling Accepting,
     worker_at := (\<lambda>_. Worker_gone)(7 := Worker_accept)\<rparr>"

lemma told_at_work_reached: "shutdown_step\<^sup>*\<^sup>* mk_shutdown told_at_work"
proof -
  let ?s = "one_session\<lparr>sessions_mutex := None, main_at := Polling\<rparr>"
  let ?t = "?s\<lparr>main_at := Accepting\<rparr>"
  have "shutdown_step\<^sup>*\<^sup>* mk_shutdown one_session"
    by (rule reach_main [OF first_client_reached])
      (auto simp: main_step_iff mk_shutdown_def first_client_def one_session_def fun_eq_iff)
  then have "shutdown_step\<^sup>*\<^sup>* mk_shutdown ?s"
    by (rule reach_main) (simp add: main_step_iff one_session_def)
  then have "shutdown_step\<^sup>*\<^sup>* mk_shutdown ?t"
    by (rule reach_main) (simp add: main_step_iff one_session_def first_client_def mk_shutdown_def)
  also have "shutdown_step ?t (?t\<lparr>worker_at := (worker_at ?t)(7 := Worker_accept)\<rparr>)"
    unfolding shutdown_step_def
    by (intro disjI2 exI [of _ 7] worker_step.serve_on)
      (simp_all add: one_session_def first_client_def mk_shutdown_def)
  finally show ?thesis
    by (rule reach_main) (auto simp: main_step_iff told_at_work_def told_to_stop_def
        one_session_def first_client_def mk_shutdown_def fun_eq_iff)
qed

theorem stopped_daemon_ends_witness:
  "(\<exists>s'. shutdown_step\<^sup>*\<^sup>* told_at_work s' \<and> finished s')
   \<and> {n. \<exists>s'. (shutdown_step ^^ n) told_at_work s'} \<subseteq> {..27}"
proof -
  have "\<not> flag told_at_work" "\<not> under_lock (main_at told_at_work)" "length (table told_at_work) = 1"
    by (simp_all add: told_at_work_def told_to_stop_def one_session_def)
  with stopped_daemon_ends [OF told_at_work_reached] show ?thesis by fastforce
qed

text \<open>C30: A signal that arrives while the main thread is registering a client keeps the daemon from ever
  ending: with the cleanup thread asleep, or waiting for the lock, \<open>stop\<close> does not return. Every
  run leaves the main thread in the handler and comes to rest with the cleanup thread waiting
  for a mutex that will never be released.\<close>

theorem signal_in_registration_wedges:
  assumes "shutdown_step\<^sup>*\<^sup>* mk_shutdown s" and "main_at s = Handling m" and "holds_table m"
    and "cleaner_at s = Asleep \<or> cleaner_at s = Locking_table"
  shows "\<forall>n s'. (shutdown_step ^^ n) s s' \<longrightarrow> n \<le> work_left s \<and> main_at s' = Handling m
     \<and> ((\<forall>s''. \<not> shutdown_step s' s'') \<longrightarrow> wedged s')"
proof -
  have ok: "shutdown_ok s"
    using shutdown_ok_reachable [OF assms(1) shutdown_ok_initial] .
  with assms(2) have down: "\<not> flag s" by (simp add: shutdown_ok_def)
  have doom: "doomed m s'" if "shutdown_step\<^sup>*\<^sup>* s s'" for s'
    using run_keeps [OF _ that ok down, of "doomed m"] doomed_step assms(2-4)
    by (auto simp: doomed_def)
  have "wedged s'" if "shutdown_step\<^sup>*\<^sup>* s s'" and "stuck s'" for s'
    using stuck_end [OF shutdown_ok_reachable [OF that(1) ok] that(2)] doom [OF that(1)]
    by (auto simp: finished_def doomed_def)
  then show ?thesis
    using run_bounded [OF _ ok down] doom relpowp_imp_rtranclp [of _ _ s]
    by (auto simp: doomed_def) (metis add_leD1)+
qed

theorem signal_in_registration_wedges_witness:
  "\<not> (\<exists>n s'. (shutdown_step ^^ n) caught s'
     \<and> (work_left caught < n \<or> main_at s' \<noteq> Handling (Enrolled 7)
        \<or> (\<forall>s''. \<not> shutdown_step s' s'') \<and> \<not> wedged s'))"
  using signal_in_registration_wedges [OF caught_reached, of "Enrolled 7"]
  by (auto simp: caught_def first_client_def not_less)

text \<open>C10: A worker never uses a session that is gone, although it only has a raw pointer to it: in every
  interleaving of registrations, sweeps, workers and the shutdown, the session of a worker that
  runs is in the table; what a step takes out of the table is a session whose worker has ended, and
  the table is locked then; one worker at most talks to the kernel; and when the main thread is
  past the destructor no other thread is left that could use the daemon.\<close>

theorem sessions_outlive_workers:
  assumes "shutdown_step\<^sup>*\<^sup>* mk_shutdown s"
  shows "(worker_at s p \<noteq> Worker_gone \<longrightarrow> p \<in> set (table s))
     \<and> (shutdown_step s s' \<and> p \<in> set (table s) - set (table s')
          \<longrightarrow> worker_at s p = Worker_gone \<and> sessions_mutex s \<noteq> None)
     \<and> (worker_at s p = Has_netlink \<and> worker_at s q = Has_netlink \<longrightarrow> p = q)
     \<and> (main_at s = Gone \<longrightarrow> worker_at s p = Worker_gone \<and> cleaner_at s = Cleaned)"
proof -
  have ok: "shutdown_ok s"
    using shutdown_ok_reachable [OF assms shutdown_ok_initial] .
  have "worker_at s p \<noteq> Worker_gone \<longrightarrow> p \<in> set (table s)"
    using ok by (auto simp: shutdown_ok_def workers_filed_def)
  moreover have "worker_at s p = Has_netlink \<and> worker_at s q = Has_netlink \<longrightarrow> p = q"
    using ok unfolding shutdown_ok_def netlink_owned_def by (metis option.inject)
  moreover have "main_at s = Gone \<longrightarrow> worker_at s p = Worker_gone \<and> cleaner_at s = Cleaned"
    using ok by (auto simp: shutdown_ok_def workers_filed_def)
  ultimately show ?thesis
    using dropped_step [OF _ ok] by blast
qed

theorem sessions_outlive_workers_witness:
  "worker_at told_to_stop 7 \<noteq> Worker_gone \<and> 7 \<in> set (table told_to_stop)
     \<and> \<not> (main_at told_to_stop = Gone)"
  using sessions_outlive_workers [OF told_to_stop_reached, of 7]
  by (auto simp: told_to_stop_def one_session_def first_client_def)

end
