(* ===== verification/Daemon_Turns.thy ===== *)
theory Daemon_Turns
  imports Session_Worker Shutdown_Locks
begin

section \<open>Turns are runs of the threads\<close>

text \<open>
  \<open>Daemon_Sessions\<close> takes a turn of a thread as one step and says what it does to the sessions;
  \<open>Shutdown_Locks\<close> has the threads statement by statement and says who waits for whom. Here the first
  is shown to be a coarser view of the second: what a daemon does to its threads and clients turn by
  turn, as its history shows it (the workers it starts, the workers it joins, the messages it sends),
  is, in this order, what a run of the threads does that ends with the same sessions and workers.
\<close>

subsection \<open>What a history and a run do\<close>

text \<open>
  The deeds of a history, newest first: a thread that was started, one that was joined, a message that
  was sent.
\<close>

datatype deed = Starts string | Joins string | Sends

fun deeds :: "history \<Rightarrow> deed list" where
  "deeds [] = []"
| "deeds ((c, r) # h) = (case c of
     Thr (ThreadStart n) \<Rightarrow> if rv r = 0 then [Starts n] else []
   | Thr (ThreadJoin n) \<Rightarrow> [Joins n]
   | Posix (Send fd b) \<Rightarrow> [Sends]
   | _ \<Rightarrow> []) @ deeds h"

text \<open>
  The deeds of a run of the threads. The main thread starts a worker where it goes on to the reply
  with a process that was not in the table, and sends where it leaves the reply. A worker sends where
  it gives back the netlink manager. It ends past its test; whoever ends its session joins it then,
  which the turns do at once.
\<close>

definition main_deeds :: "shutdown \<Rightarrow> shutdown \<Rightarrow> deed list" where
  "main_deeds s s' = (case (main_at s, main_at s') of
     (Enrolled p, Replying) \<Rightarrow>
       if p \<in> set (table s) then [] else [Starts (generate_client_channel_name p)]
   | (Replying, Polling) \<Rightarrow> [Sends]
   | _ \<Rightarrow> [])"

definition worker_deeds :: "pid \<Rightarrow> shutdown \<Rightarrow> shutdown \<Rightarrow> deed list" where
  "worker_deeds p s s' = (case (worker_at s p, worker_at s' p) of
     (Has_netlink, Worker_test) \<Rightarrow> [Sends]
   | (Worker_test, Worker_gone) \<Rightarrow> [Joins (generate_client_channel_name p)]
   | _ \<Rightarrow> [])"

inductive performs :: "deed list \<Rightarrow> shutdown \<Rightarrow> shutdown \<Rightarrow> bool" where
  rest: "performs [] s s"
| by_main: "performs ds s t \<Longrightarrow> main_step t u \<Longrightarrow> performs (main_deeds t u @ ds) s u"
| by_cleaner: "performs ds s t \<Longrightarrow> cleaner_step t u \<Longrightarrow> performs ds s u"
| by_worker: "performs ds s t \<Longrightarrow> worker_step p t u \<Longrightarrow> performs (worker_deeds p t u @ ds) s u"

lemma performs_run: "performs ds s t \<Longrightarrow> shutdown_step\<^sup>*\<^sup>* s t"
  by (induction rule: performs.induct)
    (auto simp: shutdown_step_def intro: rtranclp.rtrancl_into_rtrancl)

lemma performs_trans: "performs es t u \<Longrightarrow> performs ds s t \<Longrightarrow> performs (es @ ds) s u"
  by (induction rule: performs.induct) (auto intro: performs.intros)

text \<open>One more step, when the rule gives its deeds or the state reached in another form.\<close>

lemma then_main:
  "performs ds s t \<Longrightarrow> main_step t t' \<Longrightarrow> t' = u \<Longrightarrow> es = main_deeds t u @ ds \<Longrightarrow> performs es s u"
  using performs.by_main by simp

lemma then_cleaner: "performs ds s t \<Longrightarrow> cleaner_step t t' \<Longrightarrow> t' = u \<Longrightarrow> performs ds s u"
  using performs.by_cleaner by simp

lemma then_worker:
  "performs ds s t \<Longrightarrow> worker_step p t t' \<Longrightarrow> t' = u \<Longrightarrow> es = worker_deeds p t u @ ds
     \<Longrightarrow> performs es s u"
  using performs.by_worker by simp

subsection \<open>Threads at rest\<close>

text \<open>The processes of the sessions, each with whether it has a worker.\<close>

definition served :: "(32 word \<times> client_session) list \<Rightarrow> (pid \<times> bool) list" where
  "served ss = map (\<lambda>(pid, s). (pid, has_worker s)) ss"

definition resting ::
  "main_point \<Rightarrow> cleaner_point \<Rightarrow> owner option \<Rightarrow> (pid \<times> bool) list \<Rightarrow> shutdown" where
  "resting m c mutex ks = \<lparr>flag = True, joined = False, table = map fst ks,
     serving = (\<lambda>p. p \<in> fst ` set ks), main_at = m, cleaner_at = c,
     worker_at = (\<lambda>p. if (p, True) \<in> set ks then Worker_test else Worker_gone),
     sessions_mutex = mutex, netlink_mutex = None\<rparr>"

text \<open>The main thread and the workers at their tests, the cleanup thread asleep; and when the signal
  has just arrived.\<close>

definition at_rest :: "(pid \<times> bool) list \<Rightarrow> shutdown" where
  "at_rest ks = resting Polling Asleep None ks"

definition told :: "(pid \<times> bool) list \<Rightarrow> shutdown" where
  "told ks = (at_rest ks)\<lparr>flag := False, main_at := Handling Polling\<rparr>"

lemma started: "performs [] mk_shutdown (at_rest [])"
proof -
  have "performs [] mk_shutdown (mk_shutdown\<lparr>cleaner_at := Asleep\<rparr>)"
    by (rule then_cleaner [OF performs.rest cleaner_step.go_on]) (simp_all add: mk_shutdown_def)
  then show ?thesis
    by (rule then_main [OF _ main_step.is_root])
      (simp_all add: mk_shutdown_def at_rest_def resting_def main_deeds_def)
qed

lemma signalled: "performs [] (at_rest ks) (told ks)"
  by (rule then_main [OF performs.rest main_step.signal])
    (simp_all add: told_def at_rest_def resting_def main_deeds_def)

subsection \<open>A registration\<close>

lemma registering: "performs [] (at_rest ks) (resting (Enrolled p) Asleep (Some Main_thread) ks)"
proof -
  have "performs [] (at_rest ks) (resting Accepting Asleep None ks)"
    by (rule then_main [OF performs.rest main_step.poll_on])
      (simp_all add: at_rest_def resting_def main_deeds_def)
  then have "performs [] (at_rest ks) (resting (Enrolling p) Asleep None ks)"
    by (rule then_main [OF _ main_step.client]) (simp_all add: resting_def main_deeds_def)
  then show ?thesis
    by (rule then_main [OF _ main_step.enrol]) (simp_all add: resting_def main_deeds_def)
qed

text \<open>The four ways through \<open>handle_client_registration\<close>.\<close>

lemma replied:
  assumes "performs ds (at_rest ks) (resting Replying Asleep (Some Main_thread) ks')"
  shows "performs (Sends # ds) (at_rest ks) (at_rest ks')"
  by (rule then_main [OF assms main_step.reply]) (simp_all add: at_rest_def resting_def main_deeds_def)

lemma registered_again: "p \<in> fst ` set ks \<Longrightarrow> performs [Sends] (at_rest ks) (at_rest ks)"
  by (rule replied, rule then_main [OF registering [of ks p] main_step.known])
    (auto simp: resting_def main_deeds_def)

lemma registered_anew:
  assumes "p \<notin> fst ` set ks"
  shows "performs [Sends, Starts (generate_client_channel_name p)] (at_rest ks) (at_rest ((p, True) # ks))"
  by (rule replied, rule then_main [OF registering [of ks p] main_step.new_session])
    (use assms in \<open>auto simp: resting_def main_deeds_def fun_eq_iff\<close>)

lemma registered_without_worker:
  assumes "p \<notin> fst ` set ks"
  shows "performs [] (at_rest ks) (at_rest ((p, False) # ks))"
  by (rule then_main [OF registering [of ks p] main_step.no_thread])
    (use assms in \<open>auto simp: at_rest_def resting_def main_deeds_def fun_eq_iff\<close>)

subsection \<open>A request\<close>

lemma served_request:
  assumes "(p, True) \<in> set ks"
  shows "performs [Sends] (at_rest ks) (at_rest ks)"
proof -
  have "p \<in> fst ` set ks"
    using assms by force
  let ?at = "\<lambda>w. (at_rest ks)\<lparr>worker_at := (worker_at (at_rest ks))(p := w)\<rparr>"
  have "performs [] (at_rest ks) (?at Worker_accept)"
    by (rule then_worker [OF performs.rest worker_step.serve_on [of _ p]])
      (use assms \<open>p \<in> fst ` set ks\<close> in \<open>simp_all add: at_rest_def resting_def worker_deeds_def\<close>)
  then have "performs [] (at_rest ks) (?at Wants_netlink)"
    by (rule then_worker [OF _ worker_step.request [of _ p]]) (simp_all add: worker_deeds_def)
  then have "performs [] (at_rest ks) ((?at Has_netlink)\<lparr>netlink_mutex := Some p\<rparr>)"
    by (rule then_worker [OF _ worker_step.lock_netlink [of _ p]])
      (simp_all add: worker_deeds_def at_rest_def resting_def)
  then show ?thesis
    by (rule then_worker [OF _ worker_step.respond [of _ p]])
      (use assms in \<open>auto simp: worker_deeds_def at_rest_def resting_def fun_eq_iff\<close>)
qed

subsection \<open>A sweep\<close>

lemma sweep_drops:
  assumes "distinct (map fst (pre @ (p, b) # ks))"
  shows "performs (if b then [Joins (generate_client_channel_name p)] else [])
     (resting Polling (Sweeping (p # map fst ks)) (Some Cleanup_thread) (pre @ (p, b) # ks))
     (resting Polling (Sweeping (map fst ks)) (Some Cleanup_thread) (pre @ ks))"
proof -
  let ?s = "resting Polling (Sweeping (p # map fst ks)) (Some Cleanup_thread) (pre @ (p, b) # ks)"
  let ?t = "?s\<lparr>cleaner_at := Joining p (map fst ks), serving := (serving ?s)(p := False)\<rparr>"
  let ?u = "?t\<lparr>worker_at := (worker_at ?t)(p := Worker_gone)\<rparr>"
  let ?ds = "if b then [Joins (generate_client_channel_name p)] else []"
  have t: "performs [] ?s ?t"
    by (rule then_cleaner [OF performs.rest cleaner_step.drop_session]) (simp_all add: resting_def)
  have u: "performs ?ds ?s ?u"
  proof (cases b)
    case True
    show ?thesis
      by (rule then_worker [OF t worker_step.serve_off [of _ p]])
        (use True in \<open>simp_all add: resting_def worker_deeds_def\<close>)
  next
    case False
    then have "?u = ?t"
      using assms by (auto simp: resting_def fun_eq_iff image_iff)
    with t False show ?thesis by simp
  qed
  show ?thesis
    by (rule then_cleaner [OF u cleaner_step.dropped [of _ p "map fst ks"]])
      (use assms in \<open>auto simp: resting_def fun_eq_iff remove1_append image_iff\<close>)
qed

lemma sweep_keeps:
  "performs [] (resting Polling (Sweeping (p # ps)) (Some Cleanup_thread) ks)
     (resting Polling (Sweeping ps) (Some Cleanup_thread) ks)"
  by (rule then_cleaner [OF performs.rest cleaner_step.keep_session]) (simp_all add: resting_def)

lemma swept_through:
  assumes "performs ds (resting Polling (Sweeping (map fst ks)) (Some Cleanup_thread) ks)
     (resting Polling (Sweeping []) (Some Cleanup_thread) ks')"
  shows "performs ds (at_rest ks) (at_rest ks')"
proof -
  have "performs [] (at_rest ks) (resting Polling Locking_table None ks)"
    by (rule then_cleaner [OF performs.rest cleaner_step.wake]) (simp_all add: at_rest_def resting_def)
  then have "performs [] (at_rest ks)
      (resting Polling (Sweeping (map fst ks)) (Some Cleanup_thread) ks)"
    by (rule then_cleaner [OF _ cleaner_step.lock_table]) (simp_all add: resting_def)
  with performs_trans [OF assms] have "performs ds (at_rest ks)
      (resting Polling (Sweeping []) (Some Cleanup_thread) ks')"
    by fastforce
  then have "performs ds (at_rest ks) (resting Polling Cleaner_test None ks')"
    by (rule then_cleaner [OF _ cleaner_step.swept_all]) (simp_all add: resting_def)
  then show ?thesis
    by (rule then_cleaner [OF _ cleaner_step.go_on]) (simp_all add: at_rest_def resting_def)
qed

subsection \<open>What a turn does to the sessions served\<close>

lemma served_simps [simp]:
  "served [] = []" "served ((p, s) # ss) = (p, has_worker s) # served ss"
  "fst ` set (served ss) = fst ` set ss" "map fst (served ss) = map fst ss" "length (served ss) = length ss"
  by (induction ss) (auto simp: served_def)

lemma served_update:
  "map_of ss p = Some s \<Longrightarrow> has_worker s' = has_worker s \<Longrightarrow> served (AList.update p s' ss) = served ss"
  by (induction ss) (auto split: if_splits)

lemma served_member: "map_of ss p = Some s \<Longrightarrow> (p, has_worker s) \<in> set (served ss)"
  by (induction ss) (auto split: if_splits)

text \<open>Between two points of the history a turn has done what a run of the threads does.\<close>

definition does ::
  "history \<Rightarrow> history \<Rightarrow> (32 word \<times> client_session) list \<Rightarrow> (32 word \<times> client_session) list \<Rightarrow> bool" where
  "does h h' ss ss' \<longleftrightarrow> (\<exists>ds. deeds h' = ds @ deeds h
     \<and> performs ds (at_rest (served ss)) (at_rest (served ss')))"

lemma doesI:
  "deeds h' = ds @ deeds h \<Longrightarrow> performs ds (at_rest (served ss)) (at_rest (served ss'))
     \<Longrightarrow> does h h' ss ss'"
  by (auto simp: does_def)

lemma does_nothing [simp]: "deeds h' = deeds h \<Longrightarrow> does h h' ss ss"
  by (rule doesI [of _ "[]"]) (simp_all add: performs.rest)

lemma deeds_quiet:
  "unchanged deeds (initialize K s)" "unchanged deeds (unix_destroy K s)"
  "unchanged deeds (unix_accept K s t)" "unchanged deeds (unix_recv K s n t)"
  "unchanged deeds (process_request K nm req)"
proof -
  show "unchanged deeds (initialize K s)" "unchanged deeds (unix_destroy K s)"
    "unchanged deeds (unix_accept K s t)" "unchanged deeds (unix_recv K s n t)"
    unfolding initialize_def unix_destroy_def unix_close_def unix_accept_def unix_recv_def wait_readable_def
    by (intro keeps_rules unchanged_call; simp)+
  show "unchanged deeds (process_request K nm req)"
    by (rule process_request_quiet) simp
qed

lemmas deeds_quietD = deeds_quiet [THEN keepsD]

lemma deeds_send:
  "connected c \<Longrightarrow> socket_fd c \<noteq> -1 \<Longrightarrow> wp (unix_send K c b) (\<lambda>_ h'. deeds h' = Sends # deeds h) h"
  unfolding unix_send_def by (auto simp: wp_rules intro!: wp_call_os_any)

lemma deeds_accept:
  "wp (unix_accept K s t) (\<lambda>r h'. deeds h' = deeds h
     \<and> (case r of None \<Rightarrow> True | Some c \<Rightarrow> connected c \<and> socket_fd c \<noteq> -1)) h"
  by (rule wp_conseq [OF wp_conj [OF deeds_quietD(3) wp_accept_worker]]) (auto split: option.splits)

lemma registration_does:
  assumes "connected conn" and "socket_fd conn \<noteq> -1"
  shows "wp (handle_client_registration K d req conn)
     (\<lambda>d' h'. running d' = running d \<and> does h h' (client_sessions d) (client_sessions d')) h"
proof (cases "map_of (client_sessions d) (client_pid req)")
  case None
  then have "client_pid req \<notin> fst ` set (client_sessions d)"
    by (simp add: map_of_eq_None_iff)
  then have new: "client_pid req \<notin> fst ` set (served (client_sessions d))"
    by simp
  let ?ss = "client_sessions d" and ?p = "client_pid req"
  have registered: "does h h' ?ss ((?p, s) # ?ss)"
    if "if has_worker s then deeds h' = Sends # Starts (generate_client_channel_name ?p) # deeds h
      else deeds h' = deeds h" for h' s
    using registered_anew [OF new] registered_without_worker [OF new] that
    by (auto simp: does_def split: if_splits)
  show ?thesis
    unfolding handle_client_registration_def send_registration_def mk_session_def using None
    by (auto simp: wp_rules Let_def split: prod.split
        intro!: wp_call_os_any wp_conseq [OF deeds_quietD(1)] wp_conseq [OF deeds_quietD(2)]
          wp_conseq [OF deeds_send [OF assms]] registered)
next
  case (Some s)
  then have "client_pid req \<in> fst ` set (served (client_sessions d))"
    using served_member [OF Some] by (metis fst_conv imageI)
  from registered_again [OF this] show ?thesis
    unfolding handle_client_registration_def send_registration_def using Some
    by (auto simp: wp_rules Let_def does_def served_update [OF Some]
        intro!: wp_call_os_any wp_conseq [OF deeds_send [OF assms]])
qed

lemma run_turn_does:
  "wp (run_turn K d)
     (\<lambda>d' h'. running d' = running d \<and> does h h' (client_sessions d) (client_sessions d')) h"
  unfolding run_turn_def
  by (auto simp: wp_rules split: option.splits prod.split
      intro!: wp_conseq [OF deeds_accept] wp_conseq [OF deeds_quietD(4)] wp_conseq [OF deeds_quietD(2)]
        wp_conseq [OF registration_does])
    (auto simp: does_def)

lemma worker_turn_does:
  "wp (worker_turn K nm s) (\<lambda>r h'. \<forall>s'. r = Some s'
     \<longrightarrow> deeds h' = deeds h \<or> deeds h' = Sends # deeds h) h"
  unfolding worker_turn_def
  by (auto simp: wp_rules Let_def split: option.splits prod.split
      intro!: wp_conseq [OF deeds_accept] wp_conseq [OF deeds_quietD(4)] wp_call_os_any
        wp_conseq [OF deeds_quietD(2)] wp_conseq [OF deeds_send] wp_conseq [OF deeds_quietD(5)])

lemma end_worker_does:
  "wp (end_worker K s) (\<lambda>s' h'. session_socket s' = session_socket s
     \<and> deeds h' = (if has_worker s then [Joins (channel_name s)] else []) @ deeds h) h"
  unfolding end_worker_def by (auto simp: wp_rules Let_def intro!: wp_call_os_any)

text \<open>The sweep, with the sessions \<open>pre\<close> it has kept.\<close>

definition sweeps ::
  "(pid \<times> bool) list \<Rightarrow> history \<Rightarrow> history \<Rightarrow> (32 word \<times> client_session) list
     \<Rightarrow> (32 word \<times> client_session) list \<Rightarrow> bool" where
  "sweeps pre h h' ss ss' \<longleftrightarrow> (\<exists>ds. deeds h' = ds @ deeds h \<and> performs ds
     (resting Polling (Sweeping (map fst ss)) (Some Cleanup_thread) (pre @ served ss))
     (resting Polling (Sweeping []) (Some Cleanup_thread) (pre @ served ss')))"

lemma sweeps_keep:
  assumes "sweeps (pre @ [(p, has_worker s)]) h h' ss ss'"
  shows "sweeps pre h h' ((p, s) # ss) ((p, s) # ss')"
proof -
  obtain ds where ds: "deeds h' = ds @ deeds h" "performs ds
     (resting Polling (Sweeping (map fst ss)) (Some Cleanup_thread) ((pre @ [(p, has_worker s)]) @ served ss))
     (resting Polling (Sweeping []) (Some Cleanup_thread) ((pre @ [(p, has_worker s)]) @ served ss'))"
    using assms by (auto simp: sweeps_def)
  from performs_trans [OF ds(2) sweep_keeps [of p]] ds(1) show ?thesis
    by (auto simp: sweeps_def)
qed

lemma sweeps_drop:
  assumes "sweeps pre t h' ss ss'" and "distinct (map fst (pre @ (p, has_worker s) # served ss))"
    and "deeds t = (if has_worker s then [Joins (generate_client_channel_name p)] else []) @ deeds h"
  shows "sweeps pre h h' ((p, s) # ss) ss'"
proof -
  obtain ds where ds: "deeds h' = ds @ deeds t" "performs ds
     (resting Polling (Sweeping (map fst ss)) (Some Cleanup_thread) (pre @ served ss))
     (resting Polling (Sweeping []) (Some Cleanup_thread) (pre @ served ss'))"
    using assms(1) by (auto simp: sweeps_def)
  have "map fst (served ss) = map fst ss" by simp
  note drop = sweep_drops [OF assms(2), unfolded this]
  from performs_trans [OF ds(2) drop] ds(1) assms(3) show ?thesis
    unfolding sweeps_def by (intro exI) (auto simp: sweeps_def)
qed

lemma sweep_does:
  "distinct (map fst (pre @ served ss))
     \<Longrightarrow> \<forall>(p, s) \<in> set ss. channel_name s = generate_client_channel_name p
     \<Longrightarrow> wp (sweep K now ss) (\<lambda>ss' h'. sweeps pre h h' ss ss') h"
proof (induction ss arbitrary: pre h)
  case Nil
  then show ?case
    by (auto simp: wp_return sweeps_def intro!: exI [of _ "[]"] performs.rest)
next
  case (Cons e ss)
  obtain p s where e: "e = (p, s)" by force
  have d: "distinct (map fst (pre @ served ss))"
      "distinct (map fst ((pre @ [(p, has_worker s)]) @ served ss))"
      "distinct (map fst (pre @ (p, has_worker s) # served ss))"
    using Cons.prems(1) by (simp_all add: e)
  have n: "\<forall>(p, s) \<in> set ss. channel_name s = generate_client_channel_name p"
    and name: "channel_name s = generate_client_channel_name p"
    using Cons.prems(2) by (auto simp: e)
  have drop: "wp (sweep K now ss) (\<lambda>ss' h'. sweeps pre h h' ((p, s) # ss) ss') t"
    if "deeds t = (if has_worker s then [Joins (channel_name s)] else []) @ deeds h" for t
    by (rule wp_conseq [OF Cons.IH [OF d(1) n]], erule sweeps_drop [OF _ d(3)])
      (use that name in simp)
  have keep: "wp (sweep K now ss) (\<lambda>r. wp (State_Monad.return ((p, s) # r))
      (\<lambda>ss' h'. sweeps pre h h' ((p, s) # ss) ss')) t"
    if "deeds t = deeds h" for t
    unfolding wp_return
    by (rule wp_conseq [OF Cons.IH [OF d(2) n]], rule sweeps_keep) (use that in \<open>simp add: sweeps_def\<close>)
  show ?case
    unfolding e sweep.simps is_process_alive_def
    by (auto simp: wp_rules intro!: wp_call_os_any wp_conseq [OF end_worker_does]
        wp_conseq [OF deeds_quietD(2)] drop keep)
qed

lemma cleanup_turn_does:
  assumes "sessions_wf (client_sessions d)"
  shows "wp (cleanup_turn K d)
     (\<lambda>d' h'. running d' = running d \<and> does h h' (client_sessions d) (client_sessions d')) h"
proof -
  have wf: "distinct (map fst ([] @ served (client_sessions d)))"
    "\<forall>(p, s) \<in> set (client_sessions d). channel_name s = generate_client_channel_name p"
    using assms by (auto simp: sessions_wf_def session_wf_def)
  have rest: "does h h' ss ss'" if "sweeps [] t h' ss ss'" and "deeds t = deeds h" for t h' ss ss'
    using that swept_through [of _ "served ss" "served ss'"] by (auto simp: sweeps_def does_def)
  show ?thesis
    unfolding cleanup_turn_def wp_rules
    by (intro wp_call_os_any wp_conseq [OF sweep_does [OF wf]]) (auto simp: wp_rules elim: rest)
qed

lemma same_session_worker: "same_session s s' \<Longrightarrow> has_worker s' = has_worker s"
  unfolding same_session_def by (metis client_session.select_convs(4) client_session.surjective
      client_session.update_convs(5))

subsection \<open>Every turn is a run\<close>

text \<open>
  The threads between two turns, as the daemon has them: the main thread and the workers are at their
  tests, or the main thread in the handler of a signal that arrived there, the cleanup thread sleeps,
  and no mutex is held. The points in between are those of the run that a turn is.
\<close>

definition threads_of :: "daemon \<Rightarrow> shutdown" where
  "threads_of d = (if running d then at_rest (served (client_sessions d))
     else told (served (client_sessions d)))"

lemma daemon_step_is_run:
  assumes "daemon_step K (d, h) (d', h')" and "sessions_wf (client_sessions d)"
  shows "\<exists>ds. deeds h' = ds @ deeds h \<and> performs ds (threads_of d) (threads_of d')"
  using assms(1)
proof cases
  case main_step
  then show ?thesis
    using wp_run [OF run_turn_does main_step(2)] by (simp add: threads_of_def does_def)
next
  case (worker_step p s s')
  have "has_worker s' = has_worker s"
    using wp_run [OF wp_worker_turn worker_step(6)] same_session_worker [of s s'] by simp
  then have same: "threads_of d' = at_rest (served (client_sessions d))" "threads_of d = threads_of d'"
    using worker_step(1,2) served_update [OF worker_step(3)] by (simp_all add: threads_of_def)
  have "(p, True) \<in> set (served (client_sessions d))"
    using served_member [OF worker_step(3)] worker_step(4) by simp
  from served_request [OF this] show ?thesis
    using wp_run [OF worker_turn_does worker_step(6)] performs.rest
    unfolding same by (metis append_Cons append_Nil)
next
  case sweep_step
  then show ?thesis
    using wp_run [OF cleanup_turn_does [OF assms(2)] sweep_step(3)]
    by (simp add: threads_of_def does_def)
next
  case signal_step
  then show ?thesis
    using signalled [of "served (client_sessions d)"] performs.rest by (auto simp: threads_of_def)
qed

lemma daemon_reaches_is_run:
  assumes "daemon_reaches K x y" and "sessions_wf (client_sessions (fst x))"
  shows "\<exists>ds. deeds (snd y) = ds @ deeds (snd x) \<and> performs ds (threads_of (fst x)) (threads_of (fst y))"
  using assms
proof (induction rule: daemon_reaches.induct)
  case (reach_refl x)
  then show ?case by (auto intro: performs.rest)
next
  case (reach_step x y z)
  obtain ds where 1: "deeds (snd y) = ds @ deeds (snd x)" "performs ds (threads_of (fst x)) (threads_of (fst y))"
    using reach_step by blast
  obtain es where 2: "deeds (snd z) = es @ deeds (snd y)" "performs es (threads_of (fst y)) (threads_of (fst z))"
    using daemon_step_is_run [of K "fst y" "snd y" "fst z" "snd z"] reach_step.hyps(2)
      daemon_reaches_sessions [OF reach_step.hyps(1) reach_step.prems] by auto
  from performs_trans [OF 2(2) 1(2)] 1(1) 2(1) show ?case
    by (intro exI [of _ "es @ ds"]) simp
qed

subsection \<open>Properties\<close>

text \<open>C11: The turns of \<open>Daemon_Sessions\<close>, each a single step there, are runs of the threads of
  \<open>Shutdown_Locks\<close>: for whatever a constructed daemon has done, turn by turn, there is a run of the
  threads, statement by statement, with their mutexes and joins, that starts the same workers, joins
  the same ended workers and sends a message where the daemon did, all in the same order, and that
  ends with exactly the sessions, the workers and the flag the daemon has. So a turn starts no
  worker without its session and reply, joins each worker of a session it drops and no other, and
  every message it sends is one of a reply. Which sessions a sweep drops is a choice of the run here;
  the refinement of the table of sessions says which.\<close>

theorem daemon_turns_are_runs:
  assumes "run_state (mk_daemon K) h0 = (Inr d0, h1)" and "daemon_reaches K (d0, h1) (d, h)"
  shows "(\<exists>ds. deeds h = ds @ deeds h1 \<and> performs ds mk_shutdown (threads_of d))
     \<and> flag (threads_of d) = running d \<and> table (threads_of d) = map fst (client_sessions d)
     \<and> (\<forall>p. (worker_at (threads_of d) p \<noteq> Worker_gone)
            = (\<exists>s. map_of (client_sessions d) p = Some s \<and> has_worker s))"
proof -
  have made: "running d0" "client_sessions d0 = []"
    using wp_run [OF wp_mk_daemon assms(1)] by simp_all
  then have wf: "sessions_wf (client_sessions d0)" and t: "threads_of d0 = at_rest []"
    by (simp_all add: sessions_wf_def threads_of_def)
  have "distinct (map fst (client_sessions d))"
    using daemon_reaches_sessions [OF assms(2)] wf by (simp add: sessions_wf_def)
  then have workers: "(p, True) \<in> set (served (client_sessions d))
      \<longleftrightarrow> (\<exists>s. map_of (client_sessions d) p = Some s \<and> has_worker s)" for p
    by (force simp: served_def)
  obtain ds where "deeds h = ds @ deeds h1" "performs ds (threads_of d0) (threads_of d)"
    using daemon_reaches_is_run [OF assms(2)] wf by auto
  with performs_trans [OF this(2) started [folded t]] show ?thesis
    using workers by (auto simp: threads_of_def told_def at_rest_def resting_def)
qed

text \<open>An environment in which process 7 registers whenever the daemon listens.\<close>

definition registering_os :: os where
  "registering_os = sample_os\<lparr>respond := (\<lambda>h c. case c of
       Posix (Recv fd n) \<Rightarrow> (plain_reply 4)\<lparr>buf := encode_register_request (mk_register_request 7)\<rparr>
     | _ \<Rightarrow> respond sample_os h c)\<rparr>"

lemma registering_daemon:
  "\<exists>d0 h1 d h. run_state (mk_daemon registering_os) [] = (Inr d0, h1)
     \<and> daemon_reaches registering_os (d0, h1) (d, h) \<and> running d \<and> map fst (client_sessions d) = [7]"
proof -
  have "\<exists>d0 h1. run_state (mk_daemon registering_os) [] = (Inr d0, h1) \<and> mode (main_socket d0) = SERVER
      \<and> connected (main_socket d0) \<and> 0 < socket_fd (main_socket d0)"
    by (simp add: mk_daemon_def nm_initialize_def mk_netlink_manager_def initialize_def
        mk_unix_socket_def setup_address_def sun_path_size_def registering_os_def sample_os_def Let_def)
  then obtain d0 h1 where 0: "run_state (mk_daemon registering_os) [] = (Inr d0, h1)"
    and s: "mode (main_socket d0) = SERVER" "connected (main_socket d0)" "0 < socket_fd (main_socket d0)"
    by blast
  have made: "running d0" "client_sessions d0 = []"
    using wp_run [OF wp_mk_daemon 0] by simp_all
  have "decode_register_request (encode_register_request (mk_register_request 7)) = mk_register_request 7"
    by (simp add: register_request.dec_enc)
  then have pid: "client_pid (decode_register_request (encode_register_request (mk_register_request 7))) = 7"
    by (simp add: mk_register_request_def)
  have short: "\<not> 97 \<le> length (generate_client_channel_name 7)"
    using length_channel_name [of 7] by simp
  have answers: "respond registering_os h c = (case c of
       Posix (Recv fd n) \<Rightarrow> (plain_reply 4)\<lparr>buf := encode_register_request (mk_register_request 7)\<rparr>
     | _ \<Rightarrow> respond sample_os h c)" for h c
    by (simp add: registering_os_def)
  have init: "wp (initialize registering_os (mk_unix_socket (generate_client_channel_name 7) SERVER))
      (\<lambda>(ok, _) _. ok) t" for t
    unfolding initialize_def setup_address_def mk_unix_socket_def
    by (auto simp: wp_rules Let_def answers sample_os_def sun_path_size_def short
        intro!: wp_call_os)
  have "wp (run_turn registering_os d0) (\<lambda>d _. running d \<and> map fst (client_sessions d) = [7]) h1"
    unfolding run_turn_def unix_accept_def wait_readable_def unix_recv_def handle_client_registration_def
      mk_session_def mk_accepted_socket_def
    using s made pid
    by (auto simp: wp_rules Let_def answers sample_os_def receive_def sizeof_defs split: prod.split
        intro!: wp_call_os wp_conseq [OF init] wp_any [where m = "unix_destroy registering_os s" for s]
          wp_any [where m = "send_registration registering_os c s" for c s])
  moreover obtain d h where 1: "run_state (run_turn registering_os d0) h1 = (d, h)"
    by force
  moreover have "daemon_reaches registering_os (d0, h1) (d, h)"
    by (rule reach_step [OF reach_refl main_step [OF made(1) 1]])
  ultimately show ?thesis
    using 0 by (auto simp: wp_def)
qed

theorem daemon_turns_are_runs_witness:
  "\<exists>d0 h1 d h ds. run_state (mk_daemon registering_os) [] = (Inr d0, h1)
     \<and> daemon_reaches registering_os (d0, h1) (d, h)
     \<and> deeds h = ds @ deeds h1 \<and> performs ds mk_shutdown (threads_of d) \<and> table (threads_of d) = [7]"
proof -
  obtain d0 h1 d h where *: "run_state (mk_daemon registering_os) [] = (Inr d0, h1)"
      "daemon_reaches registering_os (d0, h1) (d, h)" "map fst (client_sessions d) = [7]"
    using registering_daemon by (elim exE conjE)
  from daemon_turns_are_runs [OF *(1,2)] * show ?thesis by auto
qed

end
