(* ===== verification/Session_Race.thy ===== *)
theory Session_Race
  imports Daemon_Sessions
begin

section \<open>One session between its worker and the sweep\<close>

text \<open>
  \<open>Daemon_Sessions\<close> takes a turn of a worker and a turn of the sweep as single steps, and
  \<open>Shutdown_Locks\<close> has their locks but not their data. Here is one session of \<open>Daemon.cpp\<close> with both
  threads statement by statement and with the clock: the worker stamps \<open>last_activity\<close> without
  \<open>sessions_mutex_\<close>, between the receipt of a request and its processing; the sweep reads the clock
  once, then \<open>kill\<close> and \<open>last_activity\<close>, in one step here, and may end the session at any point of the worker's turn;
  a second registration stamps under the mutex. The accesses to \<open>last_activity\<close> are taken as atomic,
  which the code, where it is a plain member, does not ensure. Requests are numbered
  as they are received; what processing one does, and whether \<open>send\<close> takes the answer, is left out.
\<close>

subsection \<open>State\<close>

text \<open>
  The worker: at the test of its loop; in \<open>accept\<close> and \<open>recv\<close>; with a request before the stamp,
  before \<open>process_request\<close> and before \<open>send\<close>; past its end. The sweep: asleep; with the mutex before
  it reads the clock; looking at the session; about to join the worker; past the \<open>erase\<close>.
\<close>

datatype worker_phase = Loop_test | Listening | Received | Stamped | Processed | Worker_done

datatype sweep_phase = Sleeping | Has_mutex | Looking int | Ending_session | Erased

record session_state =
  clock :: int
  stamp :: int
  client_alive :: bool
  keep_running :: bool
  daemon_up :: bool
  worker :: worker_phase
  sweeper :: sweep_phase
  taken :: nat
  replied :: nat

text \<open>Just registered at the time \<open>t\<close>.\<close>

definition new_session_state :: "int \<Rightarrow> session_state" where
  "new_session_state t = \<lparr>clock = t, stamp = t, client_alive = True, keep_running = True,
     daemon_up = True, worker = Loop_test, sweeper = Sleeping, taken = 0, replied = 0\<rparr>"

subsection \<open>Steps\<close>

inductive worker_moves :: "session_state \<Rightarrow> session_state \<Rightarrow> bool" where
  loop_on: "worker s = Loop_test \<Longrightarrow> keep_running s \<Longrightarrow> daemon_up s
    \<Longrightarrow> worker_moves s (s\<lparr>worker := Listening\<rparr>)"
| loop_off: "worker s = Loop_test \<Longrightarrow> \<not> (keep_running s \<and> daemon_up s)
    \<Longrightarrow> worker_moves s (s\<lparr>worker := Worker_done\<rparr>)"
| nothing_came: "worker s = Listening \<Longrightarrow> worker_moves s (s\<lparr>worker := Loop_test\<rparr>)"
| request_came: "worker s = Listening \<Longrightarrow> worker_moves s (s\<lparr>worker := Received, taken := Suc (taken s)\<rparr>)"
| stamps: "worker s = Received \<Longrightarrow> worker_moves s (s\<lparr>worker := Stamped, stamp := clock s\<rparr>)"
| processes: "worker s = Stamped \<Longrightarrow> worker_moves s (s\<lparr>worker := Processed\<rparr>)"
| replies: "worker s = Processed \<Longrightarrow> worker_moves s (s\<lparr>worker := Loop_test, replied := Suc (replied s)\<rparr>)"

text \<open>
  The sweep; at shutdown \<open>cleanup_sessions\<close> ends the session by the same last two steps. Other
  sessions are left out: the time spent on them is time that passes, and the mutex may be free
  earlier here.
\<close>

inductive sweep_moves :: "session_state \<Rightarrow> session_state \<Rightarrow> bool" where
  takes_mutex: "sweeper s = Sleeping \<Longrightarrow> sweep_moves s (s\<lparr>sweeper := Has_mutex\<rparr>)"
| reads_clock: "sweeper s = Has_mutex \<Longrightarrow> sweep_moves s (s\<lparr>sweeper := Looking (clock s)\<rparr>)"
| keeps_it: "sweeper s = Looking now \<Longrightarrow> client_alive s \<Longrightarrow> now - stamp s \<le> session_timeout
    \<Longrightarrow> sweep_moves s (s\<lparr>sweeper := Sleeping\<rparr>)"
| client_dead: "sweeper s = Looking now \<Longrightarrow> \<not> client_alive s
    \<Longrightarrow> sweep_moves s (s\<lparr>sweeper := Ending_session, keep_running := False\<rparr>)"
| timed_out: "sweeper s = Looking now \<Longrightarrow> session_timeout < now - stamp s
    \<Longrightarrow> sweep_moves s (s\<lparr>sweeper := Ending_session, keep_running := False\<rparr>)"
| shutdown: "sweeper s = Sleeping \<Longrightarrow> \<not> daemon_up s
    \<Longrightarrow> sweep_moves s (s\<lparr>sweeper := Ending_session, keep_running := False\<rparr>)"
| erases: "sweeper s = Ending_session \<Longrightarrow> worker s = Worker_done
    \<Longrightarrow> sweep_moves s (s\<lparr>sweeper := Erased\<rparr>)"

text \<open>The rest: time passes, a signal arrives, the client dies or, while the mutex is free, registers again.\<close>

inductive others_move :: "session_state \<Rightarrow> session_state \<Rightarrow> bool" where
  time_passes: "0 \<le> dt \<Longrightarrow> others_move s (s\<lparr>clock := clock s + dt\<rparr>)"
| told: "others_move s (s\<lparr>daemon_up := False\<rparr>)"
| client_dies: "others_move s (s\<lparr>client_alive := False\<rparr>)"
| registers_again: "sweeper s = Sleeping \<Longrightarrow> others_move s (s\<lparr>stamp := clock s\<rparr>)"

definition session_moves :: "session_state \<Rightarrow> session_state \<Rightarrow> bool" where
  "session_moves s s' \<longleftrightarrow> worker_moves s s' \<or> sweep_moves s s' \<or> others_move s s'"

code_pred (modes: i \<Rightarrow> o \<Rightarrow> bool) worker_moves .

code_pred (modes: i \<Rightarrow> o \<Rightarrow> bool) sweep_moves .

inductive_cases worker_movesE: "worker_moves s s'"
inductive_cases sweep_movesE: "sweep_moves s s'"
inductive_cases others_moveE: "others_move s s'"
inductive_simps worker_moves_iff: "worker_moves s s'"
inductive_simps sweep_moves_iff: "sweep_moves s s'"

lemma session_movesE:
  assumes "session_moves s s'"
  obtains "worker_moves s s'" | "sweep_moves s s'" | "others_move s s'"
  using assms by (auto simp: session_moves_def)

subsection \<open>Every request is answered\<close>

text \<open>Whether the worker owes an answer.\<close>

definition owes :: "session_state \<Rightarrow> nat" where
  "owes s = (if worker s \<in> {Received, Stamped, Processed} then 1 else 0)"

text \<open>
  The sweep's time is not ahead of the clock; a session that is being ended is told so; an
  erased one has no worker.
\<close>

definition session_ok :: "session_state \<Rightarrow> bool" where
  "session_ok s \<longleftrightarrow> taken s = replied s + owes s
     \<and> (\<forall>now. sweeper s = Looking now \<longrightarrow> now \<le> clock s)
     \<and> (sweeper s \<in> {Ending_session, Erased} \<longleftrightarrow> \<not> keep_running s)
     \<and> (sweeper s = Erased \<longrightarrow> worker s = Worker_done)"

lemma session_ok_new: "session_ok (new_session_state t)"
  by (simp add: session_ok_def new_session_state_def owes_def)

lemma session_ok_step: "session_moves s s' \<Longrightarrow> session_ok s \<Longrightarrow> session_ok s'"
proof (erule session_movesE)
  show "worker_moves s s' \<Longrightarrow> session_ok s \<Longrightarrow> session_ok s'"
    by (erule worker_movesE) (auto simp: session_ok_def owes_def)
  show "sweep_moves s s' \<Longrightarrow> session_ok s \<Longrightarrow> session_ok s'"
    by (erule sweep_movesE) (auto simp: session_ok_def owes_def)
  show "others_move s s' \<Longrightarrow> session_ok s \<Longrightarrow> session_ok s'"
    by (erule others_moveE) (force simp: session_ok_def owes_def)+
qed

lemma session_ok_run: "session_moves\<^sup>*\<^sup>* s s' \<Longrightarrow> session_ok s \<Longrightarrow> session_ok s'"
  by (induction rule: rtranclp_induct) (auto intro: session_ok_step)

text \<open>How many requests the worker may still receive once it is told to end.\<close>

definition may_take :: "session_state \<Rightarrow> nat" where
  "may_take s = (if worker s = Listening then 1 else 0)"

lemma ending_step:
  "session_moves s s' \<Longrightarrow> \<not> keep_running s
     \<Longrightarrow> \<not> keep_running s' \<and> taken s' + may_take s' \<le> taken s + may_take s"
proof (erule session_movesE)
  show "worker_moves s s' \<Longrightarrow> \<not> keep_running s
      \<Longrightarrow> \<not> keep_running s' \<and> taken s' + may_take s' \<le> taken s + may_take s"
    by (erule worker_movesE) (simp_all add: may_take_def)
  show "sweep_moves s s' \<Longrightarrow> \<not> keep_running s
      \<Longrightarrow> \<not> keep_running s' \<and> taken s' + may_take s' \<le> taken s + may_take s"
    by (erule sweep_movesE) (simp_all add: may_take_def)
  show "others_move s s' \<Longrightarrow> \<not> keep_running s
      \<Longrightarrow> \<not> keep_running s' \<and> taken s' + may_take s' \<le> taken s + may_take s"
    by (erule others_moveE) (simp_all add: may_take_def)
qed

lemma ending_run:
  "session_moves\<^sup>*\<^sup>* s s' \<Longrightarrow> \<not> keep_running s
     \<Longrightarrow> \<not> keep_running s' \<and> taken s' + may_take s' \<le> taken s + may_take s"
proof (induction rule: rtranclp_induct)
  case (step s1 s2)
  then show ?case
    using ending_step [OF step.hyps(2)] by fastforce
qed simp

subsection \<open>An active client keeps its session\<close>

text \<open>A state in which the client lives and was active within the limit, and the daemon runs.\<close>

definition active :: "session_state \<Rightarrow> bool" where
  "active s \<longleftrightarrow> client_alive s \<and> daemon_up s \<and> clock s - stamp s \<le> session_timeout"

inductive active_run :: "session_state \<Rightarrow> session_state \<Rightarrow> bool" where
  active_here: "active s \<Longrightarrow> active_run s s"
| active_there: "active_run s s1 \<Longrightarrow> session_moves s1 s2 \<Longrightarrow> active s2 \<Longrightarrow> active_run s s2"

lemma active_step:
  assumes "session_moves s s'" and "active s" and "session_ok s" and "keep_running s"
  shows "keep_running s'"
  using assms(1)
proof (cases rule: session_movesE)
  case 1
  then show ?thesis
    using assms(4) by cases simp_all
next
  case 2
  then show ?thesis
  proof cases
    case (timed_out now)
    then have "now \<le> clock s"
      using assms(3) by (simp add: session_ok_def)
    with timed_out assms(2) show ?thesis
      by (simp add: active_def)
  qed (use assms(2,4) in \<open>simp_all add: active_def\<close>)
next
  case 3
  then show ?thesis
    using assms(4) by cases simp_all
qed

lemma active_run_kept: "active_run s s' \<Longrightarrow> session_ok s \<Longrightarrow> keep_running s
    \<Longrightarrow> session_ok s' \<and> keep_running s' \<and> active s'"
  by (induction rule: active_run.induct) (auto intro: active_step session_ok_step)

subsection \<open>A session that is dropped while its client asks\<close>

text \<open>
  The worker listens for longer than the limit; a request comes; the sweep looks before the
  worker has stamped.
\<close>

definition decided :: "int \<Rightarrow> session_state" where
  "decided t = (new_session_state t)\<lparr>clock := t + session_timeout + 1, keep_running := False,
     worker := Received, taken := 1, sweeper := Ending_session\<rparr>"

definition dropped_at_work :: "int \<Rightarrow> session_state" where
  "dropped_at_work t = (decided t)\<lparr>stamp := t + session_timeout + 1, worker := Worker_done,
     sweeper := Erased, replied := 1\<rparr>"

lemma run_worker: "session_moves\<^sup>*\<^sup>* s s1 \<Longrightarrow> worker_moves s1 s2 \<Longrightarrow> session_moves\<^sup>*\<^sup>* s s2"
  by (auto simp: session_moves_def intro: rtranclp.rtrancl_into_rtrancl)

lemma run_sweep: "session_moves\<^sup>*\<^sup>* s s1 \<Longrightarrow> sweep_moves s1 s2 \<Longrightarrow> session_moves\<^sup>*\<^sup>* s s2"
  by (auto simp: session_moves_def intro: rtranclp.rtrancl_into_rtrancl)

lemma run_others: "session_moves\<^sup>*\<^sup>* s s1 \<Longrightarrow> others_move s1 s2 \<Longrightarrow> session_moves\<^sup>*\<^sup>* s s2"
  by (auto simp: session_moves_def intro: rtranclp.rtrancl_into_rtrancl)

lemma decided_reached: "session_moves\<^sup>*\<^sup>* (new_session_state t) (decided t)"
proof -
  let ?n = "new_session_state t" and ?c = "t + session_timeout + 1"
  have listening: "session_moves\<^sup>*\<^sup>* ?n (?n\<lparr>worker := Listening\<rparr>)"
    by (rule run_worker [OF rtranclp.rtrancl_refl]) (simp add: worker_moves_iff new_session_state_def)
  from run_others [OF listening time_passes [of "session_timeout + 1"]]
  have "session_moves\<^sup>*\<^sup>* ?n (?n\<lparr>clock := ?c, worker := Listening\<rparr>)"
    by (simp add: new_session_state_def session_timeout_def add.commute)
  then have "session_moves\<^sup>*\<^sup>* ?n (?n\<lparr>clock := ?c, worker := Received, taken := 1\<rparr>)"
    by (rule run_worker) (simp add: worker_moves_iff new_session_state_def)
  then have "session_moves\<^sup>*\<^sup>* ?n (?n\<lparr>clock := ?c, worker := Received, taken := 1, sweeper := Has_mutex\<rparr>)"
    by (rule run_sweep) (simp add: sweep_moves_iff new_session_state_def)
  then have "session_moves\<^sup>*\<^sup>* ?n (?n\<lparr>clock := ?c, worker := Received, taken := 1, sweeper := Looking ?c\<rparr>)"
    by (rule run_sweep) (simp add: sweep_moves_iff new_session_state_def)
  then show ?thesis
    by (rule run_sweep) (simp add: sweep_moves_iff new_session_state_def decided_def)
qed

lemma dropped_at_work_reached: "session_moves\<^sup>*\<^sup>* (decided t) (dropped_at_work t)"
proof -
  let ?d = "decided t" and ?c = "t + session_timeout + 1"
  have "session_moves\<^sup>*\<^sup>* ?d (?d\<lparr>stamp := ?c, worker := Stamped\<rparr>)"
    by (rule run_worker [OF rtranclp.rtrancl_refl])
      (simp add: worker_moves_iff decided_def new_session_state_def)
  then have "session_moves\<^sup>*\<^sup>* ?d (?d\<lparr>stamp := ?c, worker := Processed\<rparr>)"
    by (rule run_worker) (simp add: worker_moves_iff decided_def new_session_state_def)
  then have "session_moves\<^sup>*\<^sup>* ?d (?d\<lparr>stamp := ?c, worker := Loop_test, replied := 1\<rparr>)"
    by (rule run_worker) (simp add: worker_moves_iff decided_def new_session_state_def)
  then have "session_moves\<^sup>*\<^sup>* ?d (?d\<lparr>stamp := ?c, worker := Worker_done, replied := 1\<rparr>)"
    by (rule run_worker) (simp add: worker_moves_iff decided_def new_session_state_def)
  then show ?thesis
    by (rule run_sweep) (simp add: sweep_moves_iff decided_def new_session_state_def dropped_at_work_def)
qed

subsection \<open>Properties\<close>

text \<open>C13: However a session ends, no request is dropped half way: in every interleaving of its worker, the
  sweep, second registrations, the clock and a shutdown, every request the worker received has
  been processed and its answer handed to \<open>send\<close>, or is the one it is at; when the session is
  erased its worker has ended and no answer is owed; and once it has been decided to end it, at
  most one more request is received.\<close>

theorem session_ends_cleanly:
  assumes "session_moves\<^sup>*\<^sup>* (new_session_state t) s" and "session_moves\<^sup>*\<^sup>* s s'"
  shows "taken s' = replied s' + (if worker s' \<in> {Received, Stamped, Processed} then 1 else 0)
     \<and> (sweeper s' = Erased \<longrightarrow> worker s' = Worker_done \<and> taken s' = replied s')
     \<and> (keep_running s \<or> (\<not> keep_running s' \<and> taken s' \<le> Suc (taken s)))"
proof -
  have ok: "session_ok s'"
    using session_ok_run [OF assms(2) session_ok_run [OF assms(1) session_ok_new]] .
  have "\<not> keep_running s' \<and> taken s' \<le> Suc (taken s)" if "\<not> keep_running s"
    using ending_run [OF assms(2) that] by (simp add: may_take_def split: if_splits)
  then show ?thesis
    using ok by (auto simp: session_ok_def owes_def)
qed

theorem session_ends_cleanly_witness:
  "sweeper (dropped_at_work 0) = Erased \<and> taken (dropped_at_work 0) = 1 \<and> replied (dropped_at_work 0) = 1
     \<and> \<not> keep_running (decided 0) \<and> taken (dropped_at_work 0) \<le> Suc (taken (decided 0))"
  using session_ends_cleanly [OF decided_reached dropped_at_work_reached, of 0]
  by (simp add: dropped_at_work_def decided_def)

text \<open>C14: An active client keeps its session: as long as its process lives, its last time stamp is never
  more than five minutes old and the daemon runs, no sweep, at whatever moment it reads the
  clock and the stamp, ends the session.\<close>

theorem active_session_kept:
  assumes "session_moves\<^sup>*\<^sup>* (new_session_state t) s" and "keep_running s" and "active_run s s'"
  shows "keep_running s' \<and> sweeper s' \<noteq> Ending_session \<and> sweeper s' \<noteq> Erased"
  using active_run_kept [OF assms(3) session_ok_run [OF assms(1) session_ok_new] assms(2)]
  by (auto simp: session_ok_def)

theorem active_session_kept_witness:
  "keep_running ((new_session_state 0)\<lparr>sweeper := Has_mutex\<rparr>)
     \<and> sweeper ((new_session_state 0)\<lparr>sweeper := Has_mutex\<rparr>) \<noteq> Ending_session
     \<and> sweeper ((new_session_state 0)\<lparr>sweeper := Has_mutex\<rparr>) \<noteq> Erased"
proof (rule active_session_kept [OF rtranclp.rtrancl_refl])
  let ?n = "new_session_state 0"
  have "session_moves ?n (?n\<lparr>sweeper := Has_mutex\<rparr>)"
    by (simp add: session_moves_def sweep_moves_iff new_session_state_def)
  then show "active_run ?n (?n\<lparr>sweeper := Has_mutex\<rparr>)"
    by (intro active_there [OF active_here])
      (simp_all add: active_def new_session_state_def session_timeout_def)
qed (simp add: new_session_state_def)

text \<open>
  The stamp comes too late for the sweep that looks first: a session is erased while its client
  lives and the daemon runs, right after a request of its was received, processed and answered,
  and with a fresh time stamp.
\<close>

theorem session_dropped_at_work:
  "\<exists>s. session_moves\<^sup>*\<^sup>* (new_session_state t) s \<and> sweeper s = Erased \<and> client_alive s \<and> daemon_up s
     \<and> replied s = 1 \<and> stamp s = clock s"
proof -
  have "session_moves\<^sup>*\<^sup>* (new_session_state t) (dropped_at_work t)"
    using decided_reached dropped_at_work_reached by (rule rtranclp_trans)
  then show ?thesis
    by (intro exI [of _ "dropped_at_work t"])
      (simp add: dropped_at_work_def decided_def new_session_state_def)
qed

end
