(* ===== verification/Manager_Race.thy ===== *)
theory Manager_Race
  imports HyCAN_Prelude
begin

section \<open>Threads that share the manager\<close>

text \<open>
  \<open>Ipc_Manager\<close> has the calls of \<open>Interface/IPCManager.cpp\<close> one after the other. The singleton is
  shared by all threads of the application and has no lock, so here several threads call its
  operations at the same time, with every access to \<open>initialized_\<close> and \<open>client_\<close> a step of its own.
  The objects that \<open>make_unique\<close> has made are kept as a set of addresses, so that a call on a
  destroyed object can be told from one on a live object. Accesses are sequentially
  consistent, and the assignment to \<open>client_\<close>, with the destruction it causes, is one step; a
  \<open>make_unique\<close> that throws is not modelled; what a client does inside a call is left out, except
  that the call goes on for a while.
\<close>

subsection \<open>State and steps\<close>

text \<open>
  A thread that is not in the manager; before the test of \<open>initialized_\<close>; before \<open>make_unique\<close>; with
  the new object, before the assignment to \<open>client_\<close>; before \<open>initialized_ = true\<close>; before the read of
  \<open>client_\<close> in \<open>client_->...\<close>; and inside that call, with the object it was made on.
\<close>

datatype caller =
    Outside_manager
  | Testing
  | Allocating
  | Assigning nat
  | Flagging
  | Loading
  | Using nat

record manager =
  initialized_flag :: bool
  client_ptr :: "nat option"
  live :: "nat set"
  calling :: "nat \<Rightarrow> caller"

definition mk_manager :: manager where
  "mk_manager = \<lparr>initialized_flag = False, client_ptr = None, live = {}, calling = (\<lambda>_. Outside_manager)\<rparr>"

abbreviation goes :: "nat \<Rightarrow> caller \<Rightarrow> manager \<Rightarrow> manager" where
  "goes t c m \<equiv> m\<lparr>calling := (calling m)(t := c)\<rparr>"

text \<open>Assigning to a \<open>unique_ptr\<close> destroys the object it had.\<close>

inductive manager_step :: "nat \<Rightarrow> manager \<Rightarrow> manager \<Rightarrow> bool" for t where
  enter: "calling m t = Outside_manager \<Longrightarrow> manager_step t m (goes t Testing m)"
| made_before: "calling m t = Testing \<Longrightarrow> initialized_flag m \<Longrightarrow> manager_step t m (goes t Loading m)"
| not_made: "calling m t = Testing \<Longrightarrow> \<not> initialized_flag m \<Longrightarrow> manager_step t m (goes t Allocating m)"
| allocate: "calling m t = Allocating \<Longrightarrow> a \<notin> live m
    \<Longrightarrow> manager_step t m (goes t (Assigning a) (m\<lparr>live := insert a (live m)\<rparr>))"
| assign: "calling m t = Assigning a
    \<Longrightarrow> manager_step t m (goes t Flagging
          (m\<lparr>client_ptr := Some a, live := live m - set_option (client_ptr m)\<rparr>))"
| set_flag: "calling m t = Flagging \<Longrightarrow> manager_step t m (goes t Loading (m\<lparr>initialized_flag := True\<rparr>))"
| load: "calling m t = Loading \<Longrightarrow> client_ptr m = Some a \<Longrightarrow> manager_step t m (goes t (Using a) m)"
| leave: "calling m t = Using a \<Longrightarrow> manager_step t m (goes t Outside_manager m)"

inductive_cases manager_stepE: "manager_step t m m'"
inductive_simps manager_step_iff: "manager_step t m m'"

text \<open>Runs in which the threads of a set take part.\<close>

inductive manager_run :: "nat set \<Rightarrow> manager \<Rightarrow> manager \<Rightarrow> bool" for T where
  stay: "manager_run T m m"
| move: "manager_run T m m1 \<Longrightarrow> t \<in> T \<Longrightarrow> manager_step t m1 m2 \<Longrightarrow> manager_run T m m2"

subsection \<open>What holds whatever the threads do\<close>

text \<open>
  The objects alive are that of \<open>client_\<close> and those about to be assigned, each different; a thread
  that is past the assignment finds a client.
\<close>

definition assigned_next :: "manager \<Rightarrow> nat set" where
  "assigned_next m = {a. \<exists>t. calling m t = Assigning a}"

definition manager_ok :: "manager \<Rightarrow> bool" where
  "manager_ok m \<longleftrightarrow> live m = set_option (client_ptr m) \<union> assigned_next m
     \<and> (\<forall>t a. calling m t = Assigning a \<longrightarrow> client_ptr m \<noteq> Some a
          \<and> (\<forall>u. calling m u = Assigning a \<longrightarrow> u = t))
     \<and> (initialized_flag m \<longrightarrow> client_ptr m \<noteq> None)
     \<and> (\<forall>t. calling m t \<in> {Flagging, Loading} \<longrightarrow> client_ptr m \<noteq> None)"

lemma manager_ok_initial: "manager_ok mk_manager"
  by (simp add: manager_ok_def mk_manager_def assigned_next_def)

lemma assigned_next_upd:
  "{a. \<exists>u. ((calling m)(t := c)) u = Assigning a}
     = {a. c = Assigning a} \<union> {a. \<exists>u. u \<noteq> t \<and> calling m u = Assigning a}"
  unfolding Un_def mem_Collect_eq by (rule Collect_cong) (metis fun_upd_apply)

lemma assigned_next_others:
  "(\<And>a. calling m t \<noteq> Assigning a) \<Longrightarrow> {a. \<exists>u. u \<noteq> t \<and> calling m u = Assigning a} = assigned_next m"
  unfolding assigned_next_def by (rule Collect_cong) metis

lemma assigned_next_rest:
  assumes "manager_ok m" and "calling m t = Assigning a"
  shows "{b. \<exists>u. u \<noteq> t \<and> calling m u = Assigning b} = assigned_next m - {a}"
    and "a \<in> assigned_next m" and "set_option (client_ptr m) \<inter> assigned_next m = {}"
proof -
  have only: "\<And>u b. calling m u = Assigning b \<Longrightarrow> u = t \<longleftrightarrow> b = a"
    using assms by (metis caller.inject(1) manager_ok_def)
  show "{b. \<exists>u. u \<noteq> t \<and> calling m u = Assigning b} = assigned_next m - {a}"
    using only by (auto simp: assigned_next_def)
qed (use assms in \<open>auto simp: manager_ok_def assigned_next_def\<close>)

text \<open>A step other than an allocation and an assignment leaves the objects alone.\<close>

lemma manager_ok_goes:
  assumes "manager_ok m" and "\<And>a. calling m t \<noteq> Assigning a" and "\<And>a. c \<noteq> Assigning a"
    and "c \<in> {Flagging, Loading} \<Longrightarrow> client_ptr m \<noteq> None"
  shows "manager_ok (goes t c m)"
proof -
  have "assigned_next (goes t c m) = assigned_next m"
    using assigned_next_upd [of m t c] assigned_next_others [of m t] assms(2,3)
    by (simp add: assigned_next_def)
  then show ?thesis
    using assms by (auto simp: manager_ok_def)
qed

lemma manager_ok_flag:
  "manager_ok m \<Longrightarrow> client_ptr m \<noteq> None \<Longrightarrow> manager_ok (m\<lparr>initialized_flag := True\<rparr>)"
  by (simp add: manager_ok_def assigned_next_def)

lemma manager_ok_step:
  assumes "manager_step t m m'" and "manager_ok m"
  shows "manager_ok m'"
  using assms(1)
proof cases
  case (allocate a)
  have "assigned_next m' = insert a (assigned_next m)"
    using allocate(1,2) assigned_next_upd [of m t "Assigning a"] assigned_next_others [of m t]
    by (auto simp: assigned_next_def)
  moreover have "client_ptr m \<noteq> Some a" and "\<And>u. calling m u \<noteq> Assigning a"
    using allocate(3) assms(2) by (auto simp: manager_ok_def assigned_next_def)
  ultimately show ?thesis
    using allocate(1) assms(2) by (auto simp: manager_ok_def)
next
  case (assign a)
  note rest = assigned_next_rest [OF assms(2) assign(2)]
  have "assigned_next m' = assigned_next m - {a}"
    using assign(1) assigned_next_upd [of m t Flagging] rest(1) by (simp add: assigned_next_def)
  then show ?thesis
    using assign assms(2) rest by (auto simp: manager_ok_def)
next
  case set_flag
  then have "client_ptr m \<noteq> None"
    using assms(2) by (simp add: manager_ok_def)
  then show ?thesis
    using set_flag manager_ok_goes [OF manager_ok_flag [OF assms(2)], of t Loading] by simp
next
  case made_before
  then have "client_ptr m \<noteq> None"
    using assms(2) by (simp add: manager_ok_def)
  then show ?thesis
    using made_before manager_ok_goes [OF assms(2), of t Loading] by simp
qed (auto intro!: manager_ok_goes [OF assms(2)])

lemma manager_ok_run: "manager_run T m m' \<Longrightarrow> manager_ok m \<Longrightarrow> manager_ok m'"
  by (induction rule: manager_run.induct) (auto intro: manager_ok_step)

subsection \<open>Once the client is there\<close>

text \<open>
  \<open>settled a m\<close>: the client is \<open>a\<close>, and no thread is about to make another.
\<close>

definition settled :: "nat \<Rightarrow> manager \<Rightarrow> bool" where
  "settled a m \<longleftrightarrow> initialized_flag m \<and> client_ptr m = Some a \<and> live m = {a}
     \<and> (\<forall>t. calling m t \<in> {Outside_manager, Testing, Loading, Using a})"

lemma settled_step:
  assumes "manager_step t m m'" and "settled a m"
  shows "settled a m'"
proof -
  have "calling m t \<in> {Outside_manager, Testing, Loading, Using a}"
    using assms(2) by (simp add: settled_def)
  with assms show ?thesis
    by (elim manager_stepE) (auto simp: settled_def)
qed

lemma settled_run: "manager_run T m m' \<Longrightarrow> settled a m \<Longrightarrow> settled a m'"
  by (induction rule: manager_run.induct) (auto intro: settled_step)

text \<open>What a thread that is alone with the manager has done so far.\<close>

fun unsettled :: "caller \<Rightarrow> nat option \<Rightarrow> nat set \<Rightarrow> bool" where
  "unsettled (Assigning a) p ls \<longleftrightarrow> p = None \<and> ls = {a}"
| "unsettled Flagging p ls \<longleftrightarrow> (\<exists>a. p = Some a \<and> ls = {a})"
| "unsettled c p ls \<longleftrightarrow> c \<in> {Outside_manager, Testing, Allocating} \<and> p = None \<and> ls = {}"

definition solo :: "nat \<Rightarrow> manager \<Rightarrow> bool" where
  "solo t m \<longleftrightarrow> (\<forall>u. u \<noteq> t \<longrightarrow> calling m u = Outside_manager)
     \<and> (if initialized_flag m then \<exists>a. settled a m
        else unsettled (calling m t) (client_ptr m) (live m))"

lemma solo_initial: "solo t mk_manager"
  by (simp add: solo_def mk_manager_def)

lemma solo_step:
  assumes "manager_step t m m'" and "solo t m"
  shows "solo t m'"
proof (cases "initialized_flag m")
  case True
  then obtain a where "settled a m"
    using assms(2) by (auto simp: solo_def)
  from settled_step [OF assms(1) this] have "settled a m'" .
  moreover from this have "initialized_flag m'"
    by (simp add: settled_def)
  moreover have "\<And>u. u \<noteq> t \<Longrightarrow> calling m' u = calling m u"
    using assms(1) by cases auto
  ultimately show ?thesis
    using assms(2) by (auto simp: solo_def)
next
  case False
  with assms show ?thesis
    by (elim manager_stepE) (auto simp: solo_def settled_def)
qed

lemma solo_run: "manager_run {t} m m' \<Longrightarrow> solo t m \<Longrightarrow> solo t m'"
  by (induction rule: manager_run.induct) (auto intro: solo_step)

lemma settled_using: "settled a m \<Longrightarrow> calling m u = Using b \<Longrightarrow> b = a"
proof -
  assume "settled a m" and b: "calling m u = Using b"
  then have "calling m u \<in> {Outside_manager, Testing, Loading, Using a}"
    unfolding settled_def by blast
  with b show "b = a" by simp
qed

subsection \<open>Two first calls at the same time\<close>

lemma manager_run_trans: "manager_run T m2 m3 \<Longrightarrow> manager_run T m1 m2 \<Longrightarrow> manager_run T m1 m3"
  by (induction rule: manager_run.induct) (auto intro: move)

lemma move_eq:
  "manager_run T m m1 \<Longrightarrow> t \<in> T \<Longrightarrow> manager_step t m1 m2 \<Longrightarrow> m2 = m3 \<Longrightarrow> manager_run T m m3"
  by (auto intro: move)

lemma finds_no_client:
  assumes "t \<in> T" and "calling m t = Outside_manager" and "\<not> initialized_flag m"
  shows "manager_run T m (goes t Allocating m)"
proof -
  have "manager_run T m (goes t Testing m)"
    by (rule move [OF stay assms(1) enter]) (rule assms)
  then show ?thesis
    by (rule move_eq [OF _ assms(1) not_made]) (simp_all add: assms)
qed

lemma makes_client:
  assumes "t \<in> T" and "calling m t = Allocating" and "a \<notin> live m" and "client_ptr m \<noteq> Some a"
  shows "manager_run T m (goes t Flagging
     (m\<lparr>client_ptr := Some a, live := insert a (live m) - set_option (client_ptr m)\<rparr>))"
proof -
  have "manager_run T m (goes t (Assigning a) (m\<lparr>live := insert a (live m)\<rparr>))"
    by (rule move [OF stay assms(1) allocate]) (rule assms)+
  then show ?thesis
    by (rule move_eq [OF _ assms(1) assign]) simp_all
qed

lemma goes_on:
  assumes "t \<in> T" and "calling m t = Flagging" and "client_ptr m = Some a"
  shows "manager_run T m (goes t (Using a) (m\<lparr>initialized_flag := True\<rparr>))"
proof -
  have "manager_run T m (goes t Loading (m\<lparr>initialized_flag := True\<rparr>))"
    by (rule move_eq [OF stay assms(1) set_flag]) (simp_all add: assms)
  then show ?thesis
    by (rule move_eq [OF _ assms(1) load]) (simp_all add: assms)
qed

text \<open>A first call that is alone; and two threads that have both found no client.\<close>

definition one_inside :: manager where
  "one_inside = goes 0 (Using 0) (mk_manager\<lparr>initialized_flag := True, client_ptr := Some 0, live := {0}\<rparr>)"

definition both_testing :: manager where
  "both_testing = goes 0 Allocating (goes 1 Allocating mk_manager)"

text \<open>The first of the two goes on into its call, and then the second assigns.\<close>

definition first_inside :: manager where
  "first_inside = goes 0 (Using 0)
     (both_testing\<lparr>initialized_flag := True, client_ptr := Some 0, live := {0}\<rparr>)"

definition second_assigned :: manager where
  "second_assigned = goes 1 Flagging (first_inside\<lparr>client_ptr := Some 1, live := {1}\<rparr>)"

lemma one_inside_reached: "manager_run {0} mk_manager one_inside"
proof -
  let ?m = "goes 0 Flagging (mk_manager\<lparr>client_ptr := Some 0, live := {0}\<rparr>)"
  have "manager_run {0} mk_manager (goes 0 Allocating mk_manager)"
    by (rule finds_no_client) (simp_all add: mk_manager_def)
  moreover have "manager_run {0} (goes 0 Allocating mk_manager) ?m"
    using makes_client [of 0 "{0}" "goes 0 Allocating mk_manager" 0] by (simp add: mk_manager_def)
  moreover have "manager_run {0} ?m one_inside"
    using goes_on [of 0 "{0}" ?m 0] by (simp add: one_inside_def mk_manager_def)
  ultimately show ?thesis by (blast intro: manager_run_trans)
qed

lemma both_testing_reached: "manager_run {0, 1} mk_manager both_testing"
proof -
  have "manager_run {0, 1} mk_manager (goes 1 Allocating mk_manager)"
    by (rule finds_no_client) (simp_all add: mk_manager_def)
  moreover have "manager_run {0, 1} (goes 1 Allocating mk_manager) both_testing"
    unfolding both_testing_def by (rule finds_no_client) (simp_all add: mk_manager_def)
  ultimately show ?thesis by (blast intro: manager_run_trans)
qed

lemma second_assigned_reached: "manager_run {0, 1} mk_manager second_assigned"
proof -
  let ?m = "goes 0 Flagging (both_testing\<lparr>client_ptr := Some 0, live := {0}\<rparr>)"
  have "manager_run {0, 1} both_testing ?m"
    using makes_client [of 0 "{0, 1}" both_testing 0] by (simp add: both_testing_def mk_manager_def)
  moreover have "manager_run {0, 1} ?m first_inside"
    using goes_on [of 0 "{0, 1}" ?m 0] by (simp add: first_inside_def both_testing_def mk_manager_def)
  moreover have "manager_run {0, 1} first_inside second_assigned"
    using makes_client [of 1 "{0, 1}" first_inside 1]
    by (simp add: first_inside_def second_assigned_def both_testing_def mk_manager_def insert_commute)
  ultimately show ?thesis
    using both_testing_reached by (blast intro: manager_run_trans)
qed

subsection \<open>Properties\<close>

text \<open>C33: When one thread has brought the manager as far as \<open>initialized_\<close> before any other uses it, all threads
  may share it from then on: whatever they do, in whatever interleaving, the client stays the
  one that was made, it is the only one alive, and no call is ever made on a destroyed one.\<close>

theorem manager_shared_after_first_call:
  assumes "manager_run {t} mk_manager m" and "initialized_flag m" and "manager_run T m m'"
  shows "\<exists>a. client_ptr m = Some a \<and> client_ptr m' = Some a \<and> live m' = {a}
     \<and> (\<forall>u b. calling m' u = Using b \<longrightarrow> b = a)"
proof -
  obtain a where "settled a m"
    using solo_run [OF assms(1) solo_initial] assms(2) by (auto simp: solo_def)
  moreover from settled_run [OF assms(3) this] have "settled a m'" .
  ultimately show ?thesis
    using settled_using [of a m'] by (intro exI [of _ a]) (simp add: settled_def)
qed

theorem manager_shared_after_first_call_witness:
  "client_ptr (goes 1 Testing one_inside) = Some 0 \<and> live (goes 1 Testing one_inside) = {0}
     \<and> calling (goes 1 Testing one_inside) 0 = Using 0"
proof -
  have "calling one_inside 1 = Outside_manager"
    by (simp add: one_inside_def mk_manager_def)
  then have "manager_run {1} one_inside (goes 1 Testing one_inside)"
    by (intro move [OF stay _ enter]) simp_all
  from manager_shared_after_first_call [OF one_inside_reached _ this]
  show ?thesis
    by (simp add: one_inside_def mk_manager_def)
qed

text \<open>Whatever the threads do, one that reads \<open>client_\<close> finds a client, and every object that was made
  is the client, or about to be assigned, or destroyed: none is lost.\<close>

theorem manager_never_null_never_leaks:
  assumes "manager_run T mk_manager m"
  shows "live m = set_option (client_ptr m) \<union> {a. \<exists>t. calling m t = Assigning a}"
    and "calling m t = Loading \<Longrightarrow> client_ptr m \<noteq> None"
  using manager_ok_run [OF assms manager_ok_initial] by (simp_all add: manager_ok_def assigned_next_def)

text \<open>C34: Without that a call can be made on a destroyed client: there is a run of two threads that make their
  first calls at the same time after which the first is inside a call on a client that the
  assignment of the second has destroyed, while \<open>initialized_\<close> is set and \<open>client_\<close> is the other one.\<close>

theorem concurrent_first_calls_destroy_client:
  "\<exists>m a b. manager_run {0, 1} mk_manager m \<and> calling m 0 = Using a \<and> a \<notin> live m
     \<and> initialized_flag m \<and> client_ptr m = Some b \<and> live m = {b}"
  using second_assigned_reached
  by (intro exI [of _ second_assigned] exI [of _ 0] exI [of _ 1])
    (simp add: second_assigned_def first_inside_def)

end
