(* ===== verification/Latency_Stats.thy ===== *)
theory Latency_Stats
  imports Can_Interface Complex_Main "HOL-Library.Log_Nat"
begin

section \<open>The statistics of the latency test\<close>

text \<open>
  \<open>get_latency_stats\<close> of \<open>Dispatcher.cpp\<close> and \<open>get_reaper_latency_stats\<close> of \<open>Interface.hpp\<close>, which
  the build option \<open>HYCAN_LATENCY_TEST\<close> adds. The average is computed in \<open>double\<close>: the two
  counters are converted, divided, and divided by 1000. A double that is not negative is the
  rational number it stands for, and every operation rounds the exact result to 53 significant
  bits, ties to even, as IEEE 754 prescribes. The values that occur are 0 or far inside the range of
  normal numbers (\<open>stats_in_range\<close>), so neither overflow nor gradual underflow is needed.
\<close>

subsection \<open>Doubles\<close>

text \<open>The exponent of a positive number: \<open>2 ^ e \<le> x < 2 ^ (e + 1)\<close>.\<close>

definition exponent :: "rat \<Rightarrow> int" where
  "exponent x = (case quotient_of x of (p, q) \<Rightarrow>
     let e = bitlen p - bitlen q in if 2 powi e \<le> x then e else e - 1)"

definition round_even :: "rat \<Rightarrow> int" where
  "round_even x = (let n = \<lfloor>x\<rfloor>; r = x - of_int n in
     if r < 1 / 2 then n
     else if 1 / 2 < r then n + 1
     else if even n then n else n + 1)"

definition to_double :: "rat \<Rightarrow> rat" where
  "to_double x = (if x = 0 then 0
     else let ulp = 2 powi (exponent x - 52) in of_int (round_even (x / ulp)) * ulp)"

subsection \<open>The statistics\<close>

record latency_stats =
  total_latency_ns :: "64 word"
  message_count :: "64 word"
  average_latency_us :: rat

definition get_latency_stats :: "dispatcher \<Rightarrow> latency_stats" where
  "get_latency_stats d = (let total = accumulated_latency_ns d; count = latency_message_count d in
     \<lparr>total_latency_ns = total, message_count = count,
      average_latency_us = (if count > 0
        then to_double (to_double (to_double (of_nat (unat total)) / to_double (of_nat (unat count)))
               / 1000)
        else 0)\<rparr>)"

definition get_reaper_latency_stats :: "can_interface \<Rightarrow> latency_stats" where
  "get_reaper_latency_stats i = get_latency_stats (iface_dispatcher i)"

subsection \<open>Rounding\<close>

lemma bitlen_powi:
  assumes "0 < p"
  shows "2 powi (bitlen p - 1) \<le> (of_int p :: rat)" and "(of_int p :: rat) < 2 powi bitlen p"
proof -
  have b: "1 \<le> bitlen p"
    using assms by (simp add: bitlen_ge_iff_power)
  have conv: "(2 :: rat) powi k = of_int (2 ^ nat k)" if "0 \<le> k" for k
    using that by (simp add: power_int_def)
  show "2 powi (bitlen p - 1) \<le> (of_int p :: rat)"
    unfolding conv [of "bitlen p - 1", simplified b]
    using bitlen_bounds [OF assms] b by (simp add: conv del: of_int_power)
  show "(of_int p :: rat) < 2 powi bitlen p"
    using bitlen_bounds [OF assms] b by (simp add: conv del: of_int_power)
qed

lemma exponent_bounds:
  assumes "0 < x"
  shows "2 powi exponent x \<le> x" and "x < 2 powi (exponent x + 1)"
proof -
  obtain p q where pq: "quotient_of x = (p, q)" by force
  then have q: "0 < q" and x: "x = of_int p / of_int q"
    by (simp_all add: quotient_of_denom_pos quotient_of_div)
  with assms have p: "0 < p" by (simp add: zero_less_divide_iff)
  let ?e = "bitlen p - bitlen q"
  have "(2 :: rat) powi (?e - 1) = 2 powi (bitlen p - 1) / 2 powi bitlen q"
    by (simp add: power_int_diff)
  also have "\<dots> \<le> x"
    unfolding x using bitlen_powi [OF p] bitlen_powi [OF q] p q by (intro frac_le) simp_all
  finally have low: "2 powi (?e - 1) \<le> x" .
  have "x < 2 powi bitlen p / 2 powi (bitlen q - 1)"
    unfolding x using bitlen_powi [OF p] bitlen_powi [OF q] q p by (intro frac_less) simp_all
  also have "\<dots> = 2 powi (?e + 1)"
    by (simp add: power_int_diff power_int_add)
  finally have high: "x < 2 powi (?e + 1)" .
  show "2 powi exponent x \<le> x" and "x < 2 powi (exponent x + 1)"
    using low high by (simp_all add: exponent_def pq Let_def)
qed

lemma round_even_error: "\<bar>of_int (round_even x) - x\<bar> \<le> 1 / 2"
proof -
  have "of_int \<lfloor>x\<rfloor> \<le> x" and "x < of_int \<lfloor>x\<rfloor> + 1"
    using floor_correct [of x] by simp_all
  then show ?thesis
    unfolding round_even_def Let_def
    by (split if_splits; simp add: abs_le_iff; linarith?)+
qed

text \<open>The unit roundoff of a double, and what one rounding does.\<close>

abbreviation unit_roundoff :: rat where
  "unit_roundoff \<equiv> 1 / 2 ^ 53"

lemma to_double_error:
  assumes "0 \<le> x"
  shows "\<bar>to_double x - x\<bar> \<le> x * unit_roundoff"
proof (cases "x = 0")
  case False
  let ?ulp = "2 powi (exponent x - 52) :: rat"
  have x: "0 < x" using False assms by simp
  have ulp: "0 < ?ulp" by simp
  have "to_double x - x = (of_int (round_even (x / ?ulp)) - x / ?ulp) * ?ulp"
    using ulp by (simp add: to_double_def False Let_def left_diff_distrib)
  also have "\<bar>\<dots>\<bar> = \<bar>of_int (round_even (x / ?ulp)) - x / ?ulp\<bar> * ?ulp"
    by (simp add: abs_mult)
  also have "\<dots> \<le> 1 / 2 * ?ulp"
    by (intro mult_right_mono round_even_error) simp
  also have "\<dots> = 2 powi exponent x * unit_roundoff"
    by (simp add: power_int_diff)
  also have "\<dots> \<le> x * unit_roundoff"
    using exponent_bounds(1) [OF x] by simp
  finally show ?thesis .
qed (simp add: to_double_def)

lemma to_double_bounds:
  assumes "0 \<le> x"
  shows "x * (1 - unit_roundoff) \<le> to_double x" and "to_double x \<le> x * (1 + unit_roundoff)"
  using abs_le_D1 [OF to_double_error [OF assms]] abs_le_D2 [OF to_double_error [OF assms]]
  unfolding right_diff_distrib distrib_left mult_1_right by linarith+

text \<open>One rounding of a value that is only known to lie between two bounds, then of quotients.\<close>

lemma to_double_between:
  assumes "0 \<le> l" and "l \<le> x" and "x \<le> u"
  shows "l * (1 - unit_roundoff) \<le> to_double x" and "to_double x \<le> u * (1 + unit_roundoff)"
proof -
  note x = to_double_bounds [OF order_trans [OF assms(1,2)]]
  show "l * (1 - unit_roundoff) \<le> to_double x"
    by (rule order_trans [OF mult_right_mono [OF assms(2)] x(1)]) simp
  show "to_double x \<le> u * (1 + unit_roundoff)"
    by (rule order_trans [OF x(2) mult_right_mono [OF assms(3)]]) simp
qed

lemma average_bounds:
  fixes t c :: rat
  assumes "0 \<le> t" and "0 < c"
  defines "u \<equiv> unit_roundoff" and "s \<equiv> to_double (to_double (to_double t / to_double c) / 1000)"
  shows "t * (1 - u) / (c * (1 + u)) * (1 - u) / 1000 * (1 - u) \<le> s"
    and "s \<le> t * (1 + u) / (c * (1 - u)) * (1 + u) / 1000 * (1 + u)"
proof -
  let ?a = "to_double t" and ?b = "to_double c"
  have a: "t * (1 - u) \<le> ?a" "?a \<le> t * (1 + u)"
    unfolding u_def using to_double_bounds [OF assms(1)] .
  have b: "c * (1 - u) \<le> ?b" "?b \<le> c * (1 + u)"
    unfolding u_def using to_double_bounds [of c] assms(2) by simp_all
  have a0: "0 \<le> ?a" by (rule order_trans [OF _ a(1)]) (use assms(1) in \<open>simp add: u_def\<close>)
  have b0: "0 < ?b" by (rule less_le_trans [OF _ b(1)]) (use assms(2) in \<open>simp add: u_def\<close>)
  have q: "t * (1 - u) / (c * (1 + u)) \<le> ?a / ?b" "?a / ?b \<le> t * (1 + u) / (c * (1 - u))"
    using a b a0 b0 assms(1,2) by (intro frac_le; simp add: u_def)+
  have q0: "0 \<le> t * (1 - u) / (c * (1 + u))"
    using assms(1,2) by (simp add: u_def)
  have r: "t * (1 - u) / (c * (1 + u)) * (1 - u) / 1000 \<le> to_double (?a / ?b) / 1000"
    "to_double (?a / ?b) / 1000 \<le> t * (1 + u) / (c * (1 - u)) * (1 + u) / 1000"
    using to_double_between [OF q0 q] by (simp_all add: u_def divide_right_mono)
  have r0: "0 \<le> t * (1 - u) / (c * (1 + u)) * (1 - u) / 1000"
    using q0 by (simp add: u_def)
  show "t * (1 - u) / (c * (1 + u)) * (1 - u) / 1000 * (1 - u) \<le> s"
    and "s \<le> t * (1 + u) / (c * (1 - u)) * (1 + u) / 1000 * (1 + u)"
    unfolding s_def using to_double_between [OF r0 r] by (simp_all add: u_def)
qed

lemma average_error:
  assumes "0 \<le> t" and "0 < c"
  shows "\<bar>to_double (to_double (to_double t / to_double c) / 1000) - t / (c * 1000)\<bar>
     \<le> t / (c * 1000) * (5 * unit_roundoff)"
proof -
  let ?u = unit_roundoff and ?X = "t / (c * 1000)"
    and ?s = "to_double (to_double (to_double t / to_double c) / 1000)"
  have X: "0 \<le> ?X" using assms by simp
  have "?X * (1 - 5 * ?u) \<le> ?X * ((1 - ?u) * (1 - ?u) * (1 - ?u) / (1 + ?u))"
    by (rule mult_left_mono [OF _ X]) simp
  also have "\<dots> \<le> ?s"
    using average_bounds(1) [OF assms] by simp
  finally have low: "?X * (1 - 5 * ?u) \<le> ?s" .
  have "?s \<le> ?X * ((1 + ?u) * (1 + ?u) * (1 + ?u) / (1 - ?u))"
    using average_bounds(2) [OF assms] by simp
  also have "\<dots> \<le> ?X * (1 + 5 * ?u)"
    by (rule mult_left_mono [OF _ X]) simp
  finally have "?s \<le> ?X * (1 + 5 * ?u)" .
  with low show ?thesis
    unfolding right_diff_distrib distrib_left mult_1_right abs_le_iff by linarith
qed

text \<open>
  The values that are rounded are normal numbers of the format, which go from \<open>2 ^ (-1022)\<close> to
  \<open>2 ^ 1024\<close>.
\<close>

lemma to_double_range:
  assumes "0 \<le> x" and "l \<le> x" and "x \<le> u"
  shows "l / 2 \<le> to_double x" and "to_double x \<le> 2 * u"
proof -
  have "x / 2 \<le> x * (1 - unit_roundoff)" and "x * (1 + unit_roundoff) \<le> 2 * x"
    using assms(1) by simp_all
  then show "l / 2 \<le> to_double x" and "to_double x \<le> 2 * u"
    using to_double_bounds [OF assms(1)] assms(2,3) by linarith+
qed

lemma stats_in_range:
  fixes t c :: rat
  assumes "1 \<le> t" and "t \<le> 2 ^ 64" and "1 \<le> c" and "c \<le> 2 ^ 64"
    and "x \<in> {t, c, to_double t / to_double c, to_double (to_double t / to_double c) / 1000}"
  shows "1 / 2 ^ 80 \<le> x \<and> x \<le> 2 ^ 80"
proof -
  let ?a = "to_double t" and ?b = "to_double c"
  have a: "1 / 2 \<le> ?a" "?a \<le> 2 ^ 65" and b: "1 / 2 \<le> ?b" "?b \<le> 2 ^ 65"
    using to_double_range [of t 1 "2 ^ 64"] to_double_range [of c 1 "2 ^ 64"] assms(1-4) by simp_all
  have q: "(1 / 2) / 2 ^ 65 \<le> ?a / ?b" "?a / ?b \<le> 2 ^ 65 / (1 / 2)"
    using a b by (intro frac_le; simp)+
  have "0 \<le> ?a / ?b" using a b by simp
  note to_double_range [OF this q]
  with q assms show ?thesis by auto
qed

subsection \<open>What is measured\<close>

text \<open>The thread's part, for the frames it reads one after the other.\<close>

fun record_all :: "os \<Rightarrow> dispatcher \<Rightarrow> can_frame list \<Rightarrow> dispatcher io" where
  "record_all K d [] = State_Monad.return d"
| "record_all K d (f # fs) = do { d \<leftarrow> record_latency K d f; record_all K d fs }"

text \<open>
  The latencies of the frames: the clock's reading less the time stamp in the data, for the frames
  with eight bytes of data whose time stamp is not in the future.
\<close>

fun latencies :: "os \<Rightarrow> can_frame list \<Rightarrow> history \<Rightarrow> 64 word list" where
  "latencies K [] h = []"
| "latencies K (f # fs) h = (let r = respond K h (Thr HighResolutionClock);
       l = word_of_int (rv r) - of_le64 (frame_data f);
       rest = latencies K fs ((Thr HighResolutionClock, r) # h)
     in if frame_len f = 8 \<and> 0 \<le> sint l then l # rest else rest)"

lemma length_latencies: "length (latencies K fs h) \<le> length fs"
  by (induction fs arbitrary: h) (auto simp: Let_def le_SucI)

lemma wp_record_all:
  "latency_test d \<Longrightarrow> wp (record_all K d fs) (\<lambda>d' _.
     accumulated_latency_ns d' = accumulated_latency_ns d + sum_list (latencies K fs h)
     \<and> latency_message_count d' = latency_message_count d + of_nat (length (latencies K fs h))) h"
proof (induction fs arbitrary: d h)
  case (Cons f fs)
  show ?case
    unfolding record_all.simps wp_rules record_latency_def
    using Cons.prems
    by (auto simp: wp_rules Let_def add.assoc intro!: wp_call_os wp_conseq [OF Cons.IH])
qed (simp add: wp_return)

subsection \<open>Properties\<close>

text \<open>C31: The statistics are those of the frames: with the latency test built in and nothing measured
  before, after any frames the total is the sum of their latencies and the count is how many were
  measured, as long as the sum fits 64 bits; and the average in microseconds, which goes through
  three roundings of a double, is the true mean up to a relative error of \<open>5 / 2 ^ 53\<close>, and 0 when
  nothing was measured.\<close>

theorem latency_statistics:
  assumes "sum_list (map unat (latencies K fs h)) < 2 ^ 64" and "length fs < 2 ^ 64"
  shows "wp (record_all K (fresh_dispatcher True name) fs) (\<lambda>d' _.
     let ls = latencies K fs h; s = get_latency_stats d';
         mean = of_nat (sum_list (map unat ls)) / (of_nat (length ls) * 1000)
     in unat (total_latency_ns s) = sum_list (map unat ls) \<and> unat (message_count s) = length ls
       \<and> (if ls = [] then average_latency_us s = 0
          else \<bar>average_latency_us s - mean\<bar> \<le> mean * (5 / 2 ^ 53))) h"
proof -
  let ?ls = "latencies K fs h"
  have sums: "unat (sum_list xs) = sum_list (map unat xs)"
    if "sum_list (map unat xs) < 2 ^ 64" for xs :: "64 word list"
    using that
  proof (induction xs)
    case (Cons x xs)
    then show ?case by (simp add: unat_word_ariths)
  qed simp
  have len: "length ?ls < 2 ^ 64"
    using length_latencies [of K fs h] assms(2) by simp
  then have count: "unat (of_nat (length ?ls) :: 64 word) = length ?ls"
    by (simp add: unat_of_nat)
  then have pos: "0 < (of_nat (length ?ls) :: 64 word) \<longleftrightarrow> ?ls \<noteq> []"
    using unat_gt_0 [of "of_nat (length ?ls) :: 64 word"] by (simp add: word_gt_0)
  let ?sum = "sum_list (map unat ?ls)"
  have stats: "unat (total_latency_ns s) = ?sum \<and> unat (message_count s) = length ?ls
      \<and> (if ?ls = [] then average_latency_us s = 0
         else \<bar>average_latency_us s - of_nat ?sum / (of_nat (length ?ls) * 1000)\<bar>
           \<le> of_nat ?sum / (of_nat (length ?ls) * 1000) * (5 / 2 ^ 53))"
    if "s = get_latency_stats d" "accumulated_latency_ns d = sum_list ?ls"
      "latency_message_count d = of_nat (length ?ls)" for s d
    using average_error [of "of_nat ?sum" "of_nat (length ?ls)"]
    unfolding that(1) get_latency_stats_def that(2,3) Let_def
    by (simp add: sums [OF assms(1)] count pos)
  have "latency_test (fresh_dispatcher True name)" by (simp add: fresh_dispatcher_def)
  from wp_record_all [OF this, of K fs h]
  have "wp (record_all K (fresh_dispatcher True name) fs) (\<lambda>d' _.
      accumulated_latency_ns d' = sum_list ?ls \<and> latency_message_count d' = of_nat (length ?ls)) h"
    by (simp add: fresh_dispatcher_def)
  then show ?thesis
    unfolding Let_def by (rule wp_conseq) (elim conjE, rule stats [OF refl])
qed

text \<open>A clock that stands at 2500 ns, and two frames stamped 0, the second with seven bytes of data.\<close>

definition clock_os :: os where
  "clock_os = sample_os\<lparr>respond := (\<lambda>h c. case c of
       Thr HighResolutionClock \<Rightarrow> plain_reply 2500 | _ \<Rightarrow> respond sample_os h c)\<rparr>"

definition stamped_frames :: "can_frame list" where
  "stamped_frames = [zero_frame\<lparr>frame_len := 8\<rparr>, zero_frame\<lparr>frame_len := 7\<rparr>]"

lemma clock_latencies: "latencies clock_os stamped_frames [] = [2500]"
proof -
  have "of_le64 (frame_data zero_frame) = 0"
    by (simp add: zero_frame_def of_le64_def of_le32_def numeral_eq_Suc)
  then show ?thesis
    by (simp add: clock_os_def stamped_frames_def Let_def)
qed

theorem latency_statistics_witness:
  "wp (record_all clock_os (fresh_dispatcher True ''can0'') stamped_frames) (\<lambda>d' _.
     let s = get_latency_stats d' in
       unat (total_latency_ns s) = 2500 \<and> unat (message_count s) = 1
       \<and> \<bar>average_latency_us s - 5 / 2\<bar> \<le> 5 / 2 * (5 / 2 ^ 53)) []"
  using latency_statistics [of clock_os stamped_frames "[]" "''can0''"]
  by (simp add: clock_latencies Let_def) (simp add: stamped_frames_def)

end
