(* ===== verification/Example_Programs.thy ===== *)
theory Example_Programs
  imports Can_Interface
begin

section \<open>Two programs that use the library\<close>

text \<open>
  \<open>example/real_can_example.cpp\<close> and \<open>example/send&callback.cpp\<close>: each makes interfaces, registers a
  callback, brings them up, sends a test frame repeatedly and brings them down. They show what the
  operations of \<open>Can_Interface\<close> amount to over the life of a program. The result of a program
  is its exit code; \<open>None\<close> is a program that an exception of a constructor ends, or that does not
  return from an operation. What the programs print, and the callback, which prints, are left
  out; so are the two calls of \<open>signal\<close>.
\<close>

subsection \<open>The first steps of both\<close>

text \<open>\<open>register_callback({id}, callback).and_then(up)\<close>.\<close>

definition set_up ::
  "os \<Rightarrow> nat \<Rightarrow> InterfaceType \<Rightarrow> ipc_manager \<Rightarrow> can_interface \<Rightarrow> nat set \<Rightarrow> nat \<Rightarrow> 32 word
     \<Rightarrow> ((Error, unit) expected option \<times> ipc_manager \<times> can_interface) io" where
  "set_up K fuel T m i can_ids cb rate = (case register_callback i can_ids cb of
       None \<Rightarrow> State_Monad.return (None, m, i)
     | Some (Inl e, i) \<Rightarrow> State_Monad.return (Some (Inl e), m, i)
     | Some (Inr _, i) \<Rightarrow> interface_up K fuel T m i rate)"

fun send_times ::
  "os \<Rightarrow> nat \<Rightarrow> int \<Rightarrow> can_frame \<Rightarrow> can_interface \<Rightarrow> can_interface io" where
  "send_times K 0 pause f i = State_Monad.return i"
| "send_times K (Suc n) pause f i = do {
     (_, i) \<leftarrow> interface_send K id i f;
     _ \<leftarrow> thr K (ThreadSleep pause);
     send_times K n pause f i
   }"

subsection \<open>The example with a real interface\<close>

definition real_test_frame :: can_frame where
  "real_test_frame = zero_frame\<lparr>can_id := 0x123, frame_len := 8,
     frame_data := [0xDE, 0xAD, 0xBE, 0xEF, 0xFE, 0xED, 0xFA, 0xCE]\<rparr>"

text \<open>The loop, when \<open>keep_running\<close> is found true \<open>n\<close> times and then false.\<close>

definition real_can_example ::
  "os \<Rightarrow> bool \<Rightarrow> nat \<Rightarrow> nat \<Rightarrow> nat \<Rightarrow> ipc_manager \<Rightarrow> int option io" where
  "real_can_example K latency fuel callback n m = do {
     made \<leftarrow> mk_interface K latency ''can0'' None;
     case made of
       Inl e \<Rightarrow> State_Monad.return None
     | Inr i \<Rightarrow> do {
         (result, m, i) \<leftarrow> set_up K fuel CAN m i {0x123} callback 1000000;
         case result of
           None \<Rightarrow> State_Monad.return None
         | Some (Inl e) \<Rightarrow> do {
             _ \<leftarrow> interface_destroy K i;
             State_Monad.return (Some 1)
           }
         | Some (Inr _) \<Rightarrow> do {
             i \<leftarrow> send_times K n 1000 real_test_frame i;
             (down_result, m, i) \<leftarrow> interface_down K m i;
             case down_result of
               None \<Rightarrow> State_Monad.return None
             | Some _ \<Rightarrow> do {
                 _ \<leftarrow> interface_destroy K i;
                 State_Monad.return (Some 0)
               }
           }
       }
   }"

subsection \<open>The example with virtual interfaces\<close>

definition vcan_test_frame :: can_frame where
  "vcan_test_frame = zero_frame\<lparr>can_id := 0x100, frame_len := 8, frame_data := [0, 1, 2, 3, 4, 5, 6, 7]\<rparr>"

text \<open>
  One of the two halves: the interface, its exit code if the program ends here, and the manager.
\<close>

definition vcan_half ::
  "os \<Rightarrow> nat \<Rightarrow> nat \<Rightarrow> nat \<Rightarrow> 32 word \<Rightarrow> ipc_manager \<Rightarrow> can_interface
     \<Rightarrow> (bool option \<times> ipc_manager \<times> can_interface) io" where
  "vcan_half K fuel callback n rate m i = do {
     _ \<leftarrow> thr K (ThreadSleep 1000);
     (result, m, i) \<leftarrow> set_up K fuel VCAN m i {0x100} callback rate;
     case result of
       None \<Rightarrow> State_Monad.return (None, m, i)
     | Some (Inl e) \<Rightarrow> State_Monad.return (Some False, m, i)
     | Some (Inr _) \<Rightarrow> do {
         _ \<leftarrow> thr K (ThreadSleep 1000);
         i \<leftarrow> send_times K n 500 vcan_test_frame i;
         _ \<leftarrow> thr K (ThreadSleep 2000);
         (down_result, m, i) \<leftarrow> interface_down K m i;
         State_Monad.return (map_option (\<lambda>_. True) down_result, m, i)
       }
   }"

text \<open>The second half, to the end of the program.\<close>

definition second_example ::
  "os \<Rightarrow> bool \<Rightarrow> nat \<Rightarrow> nat \<Rightarrow> ipc_manager \<Rightarrow> can_interface \<Rightarrow> int option io" where
  "second_example K latency fuel callback m i = do {
     made2 \<leftarrow> mk_interface K latency ''vcan1'' None;
     case made2 of
       Inl e \<Rightarrow> State_Monad.return None
     | Inr i2 \<Rightarrow> do {
         (second, m, i2) \<leftarrow> vcan_half K fuel callback 2 500000 m i2;
         case second of
           None \<Rightarrow> State_Monad.return None
         | Some ok \<Rightarrow> do {
             _ \<leftarrow> interface_destroy K i2;
             _ \<leftarrow> interface_destroy K i;
             State_Monad.return (Some (if ok then 0 else 1))
           }
       }
   }"

definition send_callback_example ::
  "os \<Rightarrow> bool \<Rightarrow> nat \<Rightarrow> nat \<Rightarrow> ipc_manager \<Rightarrow> int option io" where
  "send_callback_example K latency fuel callback m = do {
     made \<leftarrow> mk_interface K latency ''vcan0'' None;
     case made of
       Inl e \<Rightarrow> State_Monad.return None
     | Inr i \<Rightarrow> do {
         (first, m, i) \<leftarrow> vcan_half K fuel callback 3 default_bitrate m i;
         case first of
           None \<Rightarrow> State_Monad.return None
         | Some False \<Rightarrow> do { _ \<leftarrow> interface_destroy K i; State_Monad.return (Some 1) }
         | Some True \<Rightarrow> second_example K latency fuel callback m i
       }
   }"

subsection \<open>What a client does not do\<close>

text \<open>
  A view of a history that only a \<open>Write\<close>, the start and the end of a thread can change is left
  alone by everything the library says to the daemon.
\<close>

locale client_blind =
  fixes view :: "history \<Rightarrow> 'v"
  assumes posix_blind: "(\<And>fd b. p \<noteq> Write fd b) \<Longrightarrow> view ((Posix p, r) # h) = view h"
    and getpid_blind: "view ((Thr Getpid, r) # h) = view h"
    and system_blind: "view ((Thr (System c), r) # h) = view h"
begin

lemma blind_socket:
  "unchanged view (initialize K s)" "unchanged view (unix_destroy K s)"
  "unchanged view (unix_send K s b)" "unchanged view (unix_recv K s n t)"
  unfolding initialize_def unix_destroy_def unix_close_def unix_send_def unix_recv_def
    wait_readable_def
  by (intro keeps_rules unchanged_call posix_blind; simp)+

lemma blind_request: "unchanged view (send_request K c q)"
  unfolding send_request_def ensure_registered_def
  by (intro keeps_rules blind_socket unchanged_call getpid_blind)

lemma blind_ipc:
  "unchanged view (ipc_set K m n up r)" "unchanged view (ipc_exists K m n)"
  "unchanged view (ipc_create_vcan K m n)"
  unfolding ipc_set_def ipc_exists_def ipc_create_vcan_def set_interface_state_def
    interface_exists_def create_vcan_interface_def fallback_system_call_def Let_def
  by (intro keeps_rules blind_request unchanged_call system_blind)+

lemma blind_connect: "unchanged view (ensure_connected K s)"
  unfolding ensure_connected_def by (intro keeps_rules unchanged_call posix_blind; simp)

lemma blind_flush: "unchanged view (flush K n s)"
proof -
  have "unchanged view (flush_loop K n fd)" for fd
    by (induction n) (auto intro!: keeps_rules unchanged_call posix_blind)
  then show ?thesis
    unfolding flush_def by (intro keeps_rules)
qed

end

text \<open>The frames the kernel took: \<open>stop\<close> also writes, but eight bytes.\<close>

definition frames_out :: "history \<Rightarrow> byte list list" where
  "frames_out h = filter (\<lambda>b. length b = sizeof_can_frame) (sent h)"

lemma frames_out_simps:
  "(\<And>fd b. p \<noteq> Write fd b) \<Longrightarrow> frames_out ((Posix p, r) # h) = frames_out h"
  "frames_out ((Thr t, r) # h) = frames_out h"
  "frames_out ((Posix (Write fd [1, 0, 0, 0, 0, 0, 0, 0]), r) # h) = frames_out h"
  by (cases p) (auto simp: frames_out_def sent_def sizeof_can_frame_def)

interpretation frames: client_blind frames_out
  by unfold_locales (simp_all add: frames_out_simps)

lemma live_threads_posix: "live_threads ((Posix p, r) # h) = live_threads h"
  by simp

interpretation threads: client_blind live_threads
  by unfold_locales simp_all

lemma frames_dispatcher:
  "unchanged frames_out (Frame_Dispatcher.start K fuel d)" "unchanged frames_out (Frame_Dispatcher.stop K d)"
  "unchanged frames_out (dispatcher_destroy K d)" "unchanged frames_out (mk_dispatcher K l n c)"
  unfolding dispatcher_destroy_def start_def stop_def mk_dispatcher_def epoll_fd_add_sock_fd_def
    can_destroy_def Let_def
  by (intro keeps_rules frames.blind_connect frames.blind_flush unchanged_call frames_out_simps; simp)+

lemma frames_interface:
  "unchanged frames_out (interface_up K fuel T m i rate)" "unchanged frames_out (interface_down K m i)"
  "unchanged frames_out (interface_destroy K i)" "unchanged frames_out (mk_interface K l n c)"
  unfolding interface_up_def interface_down_def interface_destroy_def mk_interface_def
    set_and_start_def sender_destroy_def can_destroy_def
  by ((cases T)?, simp_all only: InterfaceType.case,
      (intro keeps_rules frames.blind_ipc frames_dispatcher unchanged_call frames_out_simps; simp)+)

lemma threads_up:
  "wp (interface_up K fuel T m i rate) (\<lambda>(_, _, i') h'.
     live_threads h' - thread_of (iface_dispatcher i') = live_threads h - thread_of (iface_dispatcher i)) h"
proof -
  have start: "wp (set_and_start K fuel m i rate) (\<lambda>(_, _, i') h'.
      live_threads h' - thread_of (iface_dispatcher i') = live_threads h - thread_of (iface_dispatcher i)) t"
    if "live_threads t = live_threads h" for m t
    unfolding set_and_start_def
    by (auto simp: wp_rules that owner_step_def split: sum.splits option.splits
        intro!: wp_conseq [OF keepsD [OF threads.blind_ipc(1)]] wp_conseq [OF wp_start_step])
  show ?thesis
    unfolding interface_up_def
    by (auto simp: wp_rules split: sum.splits option.splits InterfaceType.split
        intro!: wp_conseq [OF keepsD [OF threads.blind_ipc(2)]]
          wp_conseq [OF keepsD [OF threads.blind_ipc(3)]] start)
qed

lemma threads_send: "unchanged live_threads (interface_send K g i x)"
  unfolding interface_send_def can_send_def send_connected_def
  by (intro keeps_rules threads.blind_connect unchanged_call) simp_all

text \<open>
  What a piece of a program does with an interface: descriptors and threads stay accounted for, and
  the frames the kernel took are at most \<open>n\<close> times the frame \<open>f\<close>.
\<close>

definition uses :: "can_frame \<Rightarrow> nat \<Rightarrow> can_interface \<Rightarrow> history \<Rightarrow> can_interface \<Rightarrow> history \<Rightarrow> bool" where
  "uses f n i h i' h' \<longleftrightarrow> iface_step i h i' h'
     \<and> live_threads h' - thread_of (iface_dispatcher i') = live_threads h - thread_of (iface_dispatcher i)
     \<and> (\<exists>k \<le> n. frames_out h' = replicate k (encode_frame f) @ frames_out h)"

lemma uses_trans: "uses f n i h i' h' \<Longrightarrow> uses f m i' h' i'' h'' \<Longrightarrow> uses f (n + m) i h i'' h''"
proof -
  assume a: "uses f n i h i' h'" and b: "uses f m i' h' i'' h''"
  then obtain k l where "k \<le> n" "frames_out h' = replicate k (encode_frame f) @ frames_out h"
      "l \<le> m" "frames_out h'' = replicate l (encode_frame f) @ frames_out h'"
    by (auto simp: uses_def)
  then have "k + l \<le> n + m
      \<and> frames_out h'' = replicate (l + k) (encode_frame f) @ frames_out h"
    by (simp add: replicate_add)
  then show "uses f (n + m) i h i'' h''"
    using a b by (auto simp: uses_def add.commute intro: iface_step_trans)
qed

lemma uses_sleep: "uses f 0 i h i ((Thr (ThreadSleep p), r) # h)"
  by (simp add: uses_def iface_step_def frames_out_simps fun_eq_iff)

lemma uses_up:
  "streams_open K \<Longrightarrow> wp (interface_up K fuel T m i rate) (\<lambda>(_, _, i') h'. uses f 0 i h i' h') h"
  by (rule wp_conseq [OF wp_conj [OF interface_up_step
          wp_conj [OF threads_up keepsD [OF frames_interface(1)]]]])
    (auto simp: uses_def)

lemma uses_down: "wp (interface_down K m i) (\<lambda>(_, _, i') h'. uses f 0 i h i' h') h"
  by (rule wp_conseq [OF wp_conj [OF interface_down_step
          wp_conj [OF down_success_is_stopped keepsD [OF frames_interface(2)]]]])
    (auto simp: uses_def)

lemma uses_send:
  assumes "streams_open K" and "wf_frame f"
  shows "wp (interface_send K id i f) (\<lambda>(_, i') h'. uses f 1 i h i' h') h"
proof -
  have dispatcher: "wp (interface_send K id i f) (\<lambda>(r, i') h'. iface_dispatcher i' = iface_dispatcher i
      \<and> sent h' = (if has_value r then [encode_frame f] else []) @ sent h) h"
    unfolding interface_send_def wp_rules
    by (rule wp_conseq [OF wp_can_send_sent]) (auto simp: wp_rules)
  have one: "\<exists>k \<le> Suc 0. [encode_frame f] = replicate k (encode_frame f)"
    by (rule exI [of _ "Suc 0"]) simp
  show ?thesis
    by (rule wp_conseq [OF wp_conj [OF interface_send_step [OF assms(1)]
            wp_conj [OF dispatcher keepsD [OF threads_send]]]])
      (use frame.enc_length [OF assms(2)] one in \<open>auto simp: uses_def frames_out_def\<close>)
qed

lemma uses_send_times:
  assumes "streams_open K" and "wf_frame f"
  shows "wp (send_times K n pause f i) (\<lambda>i' h'. uses f n i h i' h') h"
proof (induction n arbitrary: i h)
  case 0
  then show ?case by (simp add: wp_return uses_def iface_step_refl)
next
  case (Suc n)
  show ?case
    unfolding send_times.simps wp_rules
    by (rule wp_conseq [OF uses_send [OF assms]])
      (auto simp: wp_rules intro!: wp_call_os wp_conseq [OF Suc.IH]
        dest: uses_trans [OF uses_trans [OF _ uses_sleep]])
qed

text \<open>The first steps, and the end of an interface's life.\<close>

lemma uses_refl: "uses f n i h i h"
  by (simp add: uses_def iface_step_refl)

lemma uses_register:
  assumes "register_callback i ids cb = Some (r, i')"
  shows "uses f n i h t h' \<longleftrightarrow> uses f n i' h t h'"
proof -
  have "i' = i\<lparr>iface_dispatcher := (iface_dispatcher i)\<lparr>funcs := funcs (iface_dispatcher i'),
      lock_flag := lock_flag (iface_dispatcher i')\<rparr>\<rparr>"
    using assms
    by (auto simp: register_callback_def register_func_def Let_def
        split: option.splits if_splits prod.splits)
  then obtain fs lf where
    "i' = i\<lparr>iface_dispatcher := (iface_dispatcher i)\<lparr>funcs := fs, lock_flag := lf\<rparr>\<rparr>" by blast
  then show ?thesis
    by (simp add: uses_def iface_step_def thread_of_def)
qed

lemma uses_set_up:
  assumes "streams_open K"
  shows "wp (set_up K fuel T m i ids cb rate) (\<lambda>(_, _, i') h'. uses f 0 i h i' h') h"
  unfolding set_up_def
  by (auto simp: wp_rules uses_refl uses_register split: option.splits sum.splits
      intro!: wp_conseq [OF uses_up [OF assms]])

text \<open>
  \<open>alive i h t\<close>: at \<open>t\<close>, the interface \<open>i\<close> holds what was opened and started since \<open>h\<close>. Descriptor 0 is
  left out: a destructor closes it for a socket that was never connected.
\<close>

definition alive :: "can_interface \<Rightarrow> history \<Rightarrow> history \<Rightarrow> bool" where
  "alive i h t \<longleftrightarrow> epoll_fd (iface_dispatcher i) \<noteq> -1 \<and> thread_event_fd (iface_dispatcher i) \<noteq> -1
     \<and> -1 \<le> disp_fd (iface_dispatcher i) \<and> -1 \<le> sender_fd (iface_sender i)
     \<and> live_threads t = live_threads h + thread_of (iface_dispatcher i)
     \<and> (\<forall>x. x \<noteq> 0 \<longrightarrow> fd_count t x = fd_count h x + gain (epoll_fd (iface_dispatcher i)) x
          + gain (thread_event_fd (iface_dispatcher i)) x
          + opened (disp_fd (iface_dispatcher i)) x + opened (sender_fd (iface_sender i)) x)"

definition restored :: "history \<Rightarrow> history \<Rightarrow> bool" where
  "restored h t \<longleftrightarrow> live_threads t = live_threads h \<and> (\<forall>x. x \<noteq> 0 \<longrightarrow> fd_count t x = fd_count h x)"

lemma alive_made:
  "wp (mk_interface K l name c) (\<lambda>r t. frames_out t = frames_out h
     \<and> (case r of Inl e \<Rightarrow> True | Inr i \<Rightarrow> alive i h t)) h"
proof -
  have "wp (mk_interface K l name c) (\<lambda>r t. case r of Inl e \<Rightarrow> True | Inr i \<Rightarrow> alive i h t) h"
    unfolding mk_interface_def wp_rules
    by (rule wp_conseq [OF wp_mk_dispatcher])
      (auto simp: wp_rules alive_def mk_can_sender_def mk_can_socket_def opened_def thread_of_def
        split: sum.splits)
  from wp_conj [OF this keepsD [OF frames_interface(4)]] show ?thesis
    by (rule wp_conseq) (auto split: sum.splits)
qed

lemma alive_uses: "alive i h t \<Longrightarrow> uses f n i t i' t' \<Longrightarrow> alive i' h t'"
  by (auto simp: alive_def uses_def iface_step_def)

lemma alive_restored: "alive i h t \<Longrightarrow> restored t t' \<Longrightarrow> alive i h t'"
  by (auto simp: alive_def restored_def)

lemma alive_destroyed:
  assumes "alive i h t"
  shows "wp (interface_destroy K i) (\<lambda>_ t'. restored h t' \<and> frames_out t' = frames_out t) t"
proof -
  have threads: "wp (interface_destroy K i)
      (\<lambda>_ t'. live_threads t' = live_threads t - thread_of (iface_dispatcher i)) t"
    unfolding interface_destroy_def dispatcher_destroy_def sender_destroy_def can_destroy_def stop_def
    by (auto simp: wp_rules thread_of_def intro!: wp_call_os_any)
  have fds: "wp (interface_destroy K i) (\<lambda>_ t'. \<forall>x. x \<noteq> 0 \<longrightarrow> fd_count t' x = fd_count h x) t"
    by (rule wp_conseq [OF wp_interface_destroy])
      (use assms in \<open>auto simp: alive_def gain_def\<close>)
  show ?thesis
    by (rule wp_conseq [OF wp_conj [OF threads wp_conj [OF fds keepsD [OF frames_interface(3)]]]])
      (use assms in \<open>auto simp: alive_def restored_def\<close>)
qed

text \<open>The frames that went out between two points.\<close>

definition put_out :: "can_frame \<Rightarrow> nat \<Rightarrow> history \<Rightarrow> history \<Rightarrow> bool" where
  "put_out f n h t \<longleftrightarrow> (\<exists>k \<le> n. frames_out t = replicate k (encode_frame f) @ frames_out h)"

definition holding :: "can_frame \<Rightarrow> nat \<Rightarrow> can_interface \<Rightarrow> history \<Rightarrow> history \<Rightarrow> bool" where
  "holding f n i h t \<longleftrightarrow> alive i h t \<and> put_out f n h t"

lemma put_out_same: "frames_out t = frames_out h \<Longrightarrow> put_out f n h t"
  by (auto simp: put_out_def intro: exI [of _ 0])

lemma put_out_trans: "put_out f n h t \<Longrightarrow> put_out f m t t' \<Longrightarrow> put_out f (n + m) h t'"
proof -
  assume "put_out f n h t" and "put_out f m t t'"
  then obtain k l where "k \<le> n" "frames_out t = replicate k (encode_frame f) @ frames_out h"
      "l \<le> m" "frames_out t' = replicate l (encode_frame f) @ frames_out t"
    by (auto simp: put_out_def)
  then have "k + l \<le> n + m \<and> frames_out t' = replicate (k + l) (encode_frame f) @ frames_out h"
    by (simp add: replicate_add [symmetric] add.commute flip: append_assoc)
  then show "put_out f (n + m) h t'" by (auto simp: put_out_def)
qed

lemma uses_put_out: "uses f n i t i' t' \<Longrightarrow> put_out f n t t'"
  by (simp add: uses_def put_out_def)

lemma holding_uses: "holding f n i h t \<Longrightarrow> uses f m i t i' t' \<Longrightarrow> holding f (n + m) i' h t'"
  by (auto simp: holding_def intro: alive_uses put_out_trans uses_put_out)

lemma holding_destroyed:
  assumes "holding f n i h t"
  shows "wp (interface_destroy K i) (\<lambda>_ t'. restored h t' \<and> put_out f n h t') t"
  using assms by (auto simp: holding_def put_out_def intro: wp_conseq [OF alive_destroyed])

lemma holding_made:
  "wp (mk_interface K l name c) (\<lambda>r t. put_out f 0 h t
     \<and> (case r of Inl e \<Rightarrow> True | Inr i \<Rightarrow> holding f 0 i h t)) h"
  by (rule wp_conseq [OF alive_made]) (auto simp: holding_def put_out_same split: sum.splits)

lemma holding_set_up:
  assumes "streams_open K" and "holding f n i h t"
  shows "wp (set_up K fuel T m i ids cb rate) (\<lambda>(_, _, i') t'. holding f n i' h t') t"
  by (rule wp_conseq [OF uses_set_up [OF assms(1)]]) (auto dest: holding_uses [OF assms(2)])

lemma holding_send_times:
  assumes "streams_open K" and "wf_frame f" and "holding f n i h t"
  shows "wp (send_times K k pause f i) (\<lambda>i' t'. holding f (n + k) i' h t') t"
  by (rule wp_conseq [OF uses_send_times [OF assms(1,2)]]) (auto dest: holding_uses [OF assms(3)])

lemma holding_down:
  assumes "holding f n i h t"
  shows "wp (interface_down K m i) (\<lambda>(_, _, i') t'. holding f n i' h t') t"
  by (rule wp_conseq [OF uses_down]) (auto dest: holding_uses [OF assms])

lemma holding_put_out: "holding f n i h t \<Longrightarrow> put_out f n h t"
  by (simp add: holding_def)

lemma put_out_mono: "put_out f n h t \<Longrightarrow> n \<le> m \<Longrightarrow> put_out f m h t"
  by (auto simp: put_out_def)

lemma holding_sleep: "holding f n i h t \<Longrightarrow> holding f n i h ((Thr (ThreadSleep p), r) # t)"
  using holding_uses [OF _ uses_sleep] by fastforce

text \<open>A second interface is made and destroyed while the first is there.\<close>

lemma holding_restored:
  "holding f n i h t \<Longrightarrow> restored t t' \<Longrightarrow> put_out f m t t' \<Longrightarrow> holding f (n + m) i h t'"
  by (auto simp: holding_def intro: alive_restored put_out_trans)

lemma real_can_example_holds:
  assumes "streams_open K"
  shows "wp (real_can_example K latency fuel callback n m) (\<lambda>r t. r \<in> {None, Some 0, Some 1}
     \<and> put_out real_test_frame (if r = Some 1 then 0 else n) h t \<and> (r \<noteq> None \<longrightarrow> restored h t)) h"
proof -
  have wf: "wf_frame real_test_frame"
    by (simp add: real_test_frame_def wf_frame_def)
  show ?thesis
    unfolding real_can_example_def wp_rules
    by (rule wp_conseq [OF holding_made [where f = real_test_frame]])
      (auto simp: wp_rules put_out_mono split: sum.splits option.splits
        intro!: wp_conseq [OF holding_set_up [OF assms]] wp_conseq [OF holding_destroyed]
          wp_conseq [OF holding_send_times [OF assms wf]] wp_conseq [OF holding_down]
        intro: put_out_mono [OF holding_put_out] dest: holding_put_out)
qed

lemma vcan_half_holds:
  assumes "streams_open K" and "holding vcan_test_frame 0 i h t"
  shows "wp (vcan_half K fuel callback n rate m i)
     (\<lambda>(r, _, i') t. holding vcan_test_frame (if r = Some False then 0 else n) i' h t) t"
proof -
  have wf: "wf_frame vcan_test_frame"
    by (simp add: vcan_test_frame_def wf_frame_def)
  have more: "holding vcan_test_frame n i h t" if "holding vcan_test_frame 0 i h t" for i t
    using that by (auto simp: holding_def intro: put_out_mono)
  show ?thesis
    using assms(2) unfolding vcan_half_def
    by (auto simp: wp_rules split: sum.splits option.splits
        intro!: wp_call_os wp_conseq [OF holding_set_up [OF assms(1)]] holding_sleep
          wp_conseq [OF holding_send_times [OF assms(1) wf]] wp_conseq [OF holding_down],
      auto intro: more)
qed

lemma second_example_holds:
  assumes "streams_open K" and i: "holding vcan_test_frame 3 i h t"
  shows "wp (second_example K latency fuel callback m i) (\<lambda>r t. r \<in> {None, Some 0, Some 1}
     \<and> put_out vcan_test_frame 5 h t \<and> (r \<noteq> None \<longrightarrow> restored h t)) t"
proof -
  let ?f = vcan_test_frame
  have out: "put_out ?f k t t' \<Longrightarrow> k \<le> 2 \<Longrightarrow> put_out ?f 5 h t'" for k t'
    using i put_out_trans [of ?f 3 h t k t'] put_out_mono [of ?f "3 + k" h t' 5]
    by (auto simp: holding_def)
  have last: "wp (interface_destroy K i2)
      (\<lambda>_. wp (interface_destroy K i) (\<lambda>_ t. put_out ?f 5 h t \<and> restored h t)) t'"
    if "holding ?f k i2 t t'" "k \<le> 2" for i2 t' k
    by (rule wp_conseq [OF holding_destroyed [OF that(1)]],
        rule wp_conseq [OF holding_destroyed [OF holding_restored [OF i]]])
      (use that(2) in \<open>auto intro: put_out_mono\<close>)
  show ?thesis
    unfolding second_example_def wp_rules
    by (rule wp_conseq [OF holding_made [where f = ?f]])
      (auto simp: wp_rules out split: sum.splits option.splits
        intro!: wp_conseq [OF vcan_half_holds [OF assms(1)]] last
        dest: holding_put_out)
qed

lemma send_callback_example_holds:
  assumes "streams_open K"
  shows "wp (send_callback_example K latency fuel callback m) (\<lambda>r t. r \<in> {None, Some 0, Some 1}
     \<and> put_out vcan_test_frame 5 h t \<and> (r \<noteq> None \<longrightarrow> restored h t)) h"
  unfolding send_callback_example_def wp_rules
  by (rule wp_conseq [OF holding_made [where f = vcan_test_frame]])
    (auto simp: wp_rules split: sum.splits option.splits bool.splits
      intro!: wp_conseq [OF vcan_half_holds [OF assms]] wp_conseq [OF second_example_holds [OF assms]]
        wp_conseq [OF holding_destroyed]
      intro: put_out_mono dest: holding_put_out)

subsection \<open>Properties\<close>

text \<open>C37: Whatever the daemon, the kernel and the bus do, the example programs end with exit code 0 or 1 if they
  end; then they have joined every thread they started and hold the descriptors they held before
  (descriptor 0 apart, which a destructor may close); and what the kernel took from them is the
  test frame, at most once per turn of the loop in the one, at most five times in the other, and not
  at all when the first exits with 1.\<close>

theorem example_programs_clean_up:
  assumes "streams_open K"
  shows "wp (real_can_example K latency fuel callback n m) (\<lambda>r t. r \<in> {None, Some 0, Some 1}
       \<and> put_out real_test_frame (if r = Some 1 then 0 else n) h t \<and> (r \<noteq> None \<longrightarrow> restored h t)) h
     \<and> wp (send_callback_example K latency fuel callback m) (\<lambda>r t. r \<in> {None, Some 0, Some 1}
       \<and> put_out vcan_test_frame 5 h t \<and> (r \<noteq> None \<longrightarrow> restored h t)) h"
  by (intro conjI real_can_example_holds send_callback_example_holds assms)

theorem example_programs_clean_up_witness:
  "wp (real_can_example sample_os False 2 9 3 mk_ipc_manager) (\<lambda>r t. r \<in> {None, Some 0, Some 1}
       \<and> put_out real_test_frame (if r = Some 1 then 0 else 3) [] t
       \<and> (r \<noteq> None \<longrightarrow> restored [] t)) []
     \<and> wp (send_callback_example sample_os False 2 9 mk_ipc_manager)
       (\<lambda>r t. r \<in> {None, Some 0, Some 1} \<and> put_out vcan_test_frame 5 [] t
         \<and> (r \<noteq> None \<longrightarrow> restored [] t)) []"
  by (rule example_programs_clean_up [OF streams_open_sample])

end
