(* ===== verification/Joined_Programs.thy ===== *)
theory Joined_Programs
  imports Daemon_Sessions Can_Interface Can_Sender
begin

section \<open>The library and the daemon, joined\<close>

text \<open>
  The two programs share no state; what joins them is the bytes on their sockets. This theory
  says what it means that an environment of the library is joined to the daemon's handlers
  (\<open>Daemon.cpp\<close>, \<open>NetlinkManager.cpp\<close> on one side, \<open>NetlinkClient.cpp\<close> on the other) and
  follows a registration and a request through both; the root theory states the results. The
  last section gives an environment that is joined to them.
\<close>

subsection \<open>Registration across the two programs\<close>

text \<open>A reception, with the reply that the environment gave.\<close>

lemma wp_unix_recv_reply:
  "connected s \<Longrightarrow> socket_fd s \<noteq> -1 \<Longrightarrow> 0 < n \<Longrightarrow>
   wp (unix_recv K s n 5000) (\<lambda>(k, b) _. 0 < k \<longrightarrow> (\<exists>r4 r.
      (let c = Posix (Select (socket_fd s) 5 0) in r4 = respond K h c
         \<and> r = respond K ((c, r4) # h) (Posix (Recv (socket_fd s) n)))
        \<and> k = rv r \<and> b = buf r)) h"
  by (auto simp: unix_recv_def wait_readable_def wp_rules Let_def intro!: wp_call_os)

text \<open>
  \<open>enrols K d conn g KC\<close>: the client's environment is joined to a daemon with the object \<open>d\<close>
  that accepted the client's connection as \<open>conn\<close>. What the client receives after sending a
  registration is what \<open>handle_client_registration\<close> sent last, given the bytes the client sent.
\<close>

definition enrols :: "os \<Rightarrow> daemon \<Rightarrow> unix_socket \<Rightarrow> history \<Rightarrow> os \<Rightarrow> bool" where
  "enrols K d conn g KC \<longleftrightarrow> (\<forall>fd sec usec r4 bytes r3 h r.
     r = respond KC ((Posix (Select fd sec usec), r4) # (Posix (Send fd bytes), r3) # h)
           (Posix (Recv fd sizeof_ClientRegisterResponse))
     \<longrightarrow> rv r = int sizeof_ClientRegisterResponse
     \<longrightarrow> (\<exists>fd'. fst (hd (snd (run_state
            (handle_client_registration K d (decode_register_request bytes) conn) g)))
              = Posix (Send fd' (buf r))))"

lemma registration_answer:
  assumes "sessions_wf (client_sessions d)"
  shows "wp (handle_client_registration K d req conn) (\<lambda>d' h'. \<forall>fd b.
     fst (hd h') = Posix (Send fd b) \<longrightarrow> b = encode_register_response (mk_register_response 0
           (generate_client_channel_name (client_pid req)))
       \<and> (\<exists>s. map_of (client_sessions d') (client_pid req) = Some s
             \<and> session_wf (client_pid req) s)) h"
proof (cases "map_of (client_sessions d) (client_pid req)")
  case (Some s)
  with assms have "session_wf (client_pid req) s"
    using map_of_SomeD [OF Some] by (auto simp: sessions_wf_def)
  with Some show ?thesis
    unfolding handle_client_registration_def send_registration_def unix_send_def
    by (auto simp: wp_rules Let_def update_conv' session_wf_def intro!: wp_call_os)
next
  case None
  have sock: "wp (initialize K (mk_unix_socket p SERVER)) (\<lambda>(ok, s) h'. mode s = SERVER
      \<and> (ok \<longrightarrow> socket_path s = ''/run/hycan_'' @ p \<and> connected s \<and> socket_fd s \<noteq> -1)
      \<and> (\<not> ok \<longrightarrow> socket_fd s = -1 \<and> (\<forall>fd b. fst (hd h') \<noteq> Posix (Send fd b)))) t" for p t
    unfolding initialize_def setup_address_def mk_unix_socket_def unix_close_def
    by (auto simp: wp_rules Let_def intro!: wp_call_os_any)
  from None show ?thesis
    unfolding handle_client_registration_def send_registration_def unix_send_def
      unix_destroy_def unix_close_def mk_session_def
    by (auto simp: wp_rules Let_def session_wf_def split: prod.splits
        intro!: wp_call_os_any wp_conseq [OF sock])
qed

lemma enrolsD:
  assumes "enrols K d conn g KC" and "sessions_wf (client_sessions d)"
    and "rv (respond KC ((Posix (Select fd sec usec), r4) # (Posix (Send fd
           (encode_register_request (mk_register_request pid))), r3) # h)
           (Posix (Recv fd sizeof_ClientRegisterResponse))) = int sizeof_ClientRegisterResponse"
  shows "buf (respond KC ((Posix (Select fd sec usec), r4) # (Posix (Send fd
           (encode_register_request (mk_register_request pid))), r3) # h)
           (Posix (Recv fd sizeof_ClientRegisterResponse)))
       = encode_register_response (mk_register_response 0 (generate_client_channel_name pid))"
    and "\<exists>s. map_of (client_sessions (fst (run_state (handle_client_registration K d
         (mk_register_request pid) conn) g))) pid = Some s \<and> session_wf pid s"
proof -
  let ?q = "mk_register_request pid"
  have q: "decode_register_request (encode_register_request ?q) = ?q" "client_pid ?q = pid"
    by (simp_all add: register_request.dec_enc) (simp add: mk_register_request_def)
  from assms(1,3) obtain fd' where "fst (hd (snd (run_state
      (handle_client_registration K d ?q conn) g))) = Posix (Send fd' (buf (respond KC
        ((Posix (Select fd sec usec), r4) # (Posix (Send fd (encode_register_request ?q)), r3) # h)
        (Posix (Recv fd sizeof_ClientRegisterResponse)))))"
    unfolding enrols_def q(1) by (metis q(1))
  with registration_answer [OF assms(2), of K ?q conn g]
  show "buf (respond KC ((Posix (Select fd sec usec), r4) # (Posix (Send fd
           (encode_register_request ?q)), r3) # h)
           (Posix (Recv fd sizeof_ClientRegisterResponse)))
       = encode_register_response (mk_register_response 0 (generate_client_channel_name pid))"
    and "\<exists>s. map_of (client_sessions (fst (run_state (handle_client_registration K d ?q conn) g)))
         pid = Some s \<and> session_wf pid s"
    by (auto simp: wp_fst_snd q)
qed

lemma channel_read:
  "c_str (client_channel_name (mk_register_response 0 (generate_client_channel_name pid)))
     = Some (generate_client_channel_name pid)"
  using length_channel_name [of pid] channel_name_no_NUL [of pid]
  by (simp add: c_str_channel_name cstr_chars_id)

lemma channel_address:
  "setup_address (mk_unix_socket (generate_client_channel_name pid) m)
     = Some (''/run/hycan_'' @ generate_client_channel_name pid)"
  using length_channel_name [of pid] channel_name_no_NUL [of pid]
  by (simp add: setup_address_def mk_unix_socket_def sun_path_size_def cstr_chars_id)

text \<open>
  A client is enrolled under a process when the daemon, after the registration, has a session
  filed under it whose channel the client has stored and whose socket listens on the path the
  client will connect to.
\<close>

definition enrolled ::
  "os \<Rightarrow> daemon \<Rightarrow> unix_socket \<Rightarrow> history \<Rightarrow> 32 word \<Rightarrow> netlink_client \<Rightarrow> bool" where
  "enrolled K d conn g pid c \<longleftrightarrow> registered c \<and> (\<exists>s.
     map_of (client_sessions (fst (run_state (handle_client_registration K d
       (mk_register_request pid) conn) g))) pid = Some s
     \<and> session_wf pid s \<and> client_channel c = channel_name s
     \<and> setup_address (mk_unix_socket (client_channel c) CLIENT)
         = Some (socket_path (session_socket s)))"

lemma enrolledI:
  assumes "\<exists>s. map_of (client_sessions (fst (run_state (handle_client_registration K d
       (mk_register_request pid) conn) g))) pid = Some s \<and> session_wf pid s"
  shows "enrolled K d conn g pid
    (c\<lparr>client_channel := generate_client_channel_name pid, registered := True\<rparr>)"
  using assms by (auto simp: enrolled_def session_wf_def channel_address)

lemma registration_received:
  assumes "enrols K d conn g KC" and "sessions_wf (client_sessions d)"
    and "connected s" and "socket_fd s \<noteq> -1"
  shows "wp (unix_recv KC s sizeof_ClientRegisterResponse 5000) (\<lambda>(k, b) _.
       k = int sizeof_ClientRegisterResponse \<longrightarrow>
       b = encode_register_response (mk_register_response 0 (generate_client_channel_name pid))
       \<and> enrolled K d conn g pid
           (c\<lparr>client_channel := generate_client_channel_name pid, registered := True\<rparr>))
       ((Posix (Send (socket_fd s) (encode_register_request (mk_register_request pid))), r3) # t)"
  by (rule wp_conseq [OF wp_unix_recv_reply [OF assms(3,4)]])
    (auto simp: sizeof_defs Let_def enrolledI
      enrolsD [OF assms(1,2), unfolded sizeof_defs, simplified])

subsection \<open>Requests\<close>

text \<open>
  The daemon that serves a channel answers the request whose bytes it received there with the
  response that \<open>process_request\<close> returns at that point of its history (\<open>Session_Worker\<close>).
  \<open>serves K nm KC\<close> says that the client's environment \<open>KC\<close> is joined in this way to a daemon that
  runs in the environment \<open>K\<close> with the manager \<open>nm\<close>: when the client's \<open>recv\<close> after a \<open>send\<close>
  yields as many bytes as a response has, they are those of the daemon's response to the bytes
  sent, given at some point \<open>g\<close> of the daemon's history, which the client does not know.
\<close>

definition serves :: "os \<Rightarrow> netlink_manager \<Rightarrow> os \<Rightarrow> bool" where
  "serves K nm KC \<longleftrightarrow> (\<forall>fd sec usec r4 bytes r3 h r.
     r = respond KC ((Posix (Select fd sec usec), r4) # (Posix (Send fd bytes), r3) # h)
           (Posix (Recv fd sizeof_NetlinkResponse))
     \<longrightarrow> rv r = int sizeof_NetlinkResponse
     \<longrightarrow> (\<exists>g resp g'. run_state (process_request K nm (decode_request bytes)) g = (Some resp, g')
           \<and> buf r = encode_response resp))"

text \<open>A request that the daemon processed, with its answer and what its history was afterwards.\<close>

definition processed ::
  "os \<Rightarrow> netlink_manager \<Rightarrow> NetlinkRequest \<Rightarrow> NetlinkResponse \<Rightarrow> (history \<Rightarrow> bool) \<Rightarrow> bool" where
  "processed K nm q resp P \<longleftrightarrow> (\<exists>g g'. run_state (process_request K nm q) g = (Some resp, g') \<and> P g')"

lemma processed_conseq:
  assumes "processed K nm q resp P"
    and "\<And>g. wp (process_request K nm q) (\<lambda>r g'. \<forall>x. r = Some x \<longrightarrow> P g' \<longrightarrow> x = resp \<longrightarrow> Q g') g"
  shows "processed K nm q resp Q"
  using assms(1) wp_run [OF assms(2)] by (auto simp: processed_def) blast

lemma process_request_wf:
  "wp (process_request K nm req) (\<lambda>r _. \<forall>resp. r = Some resp \<longrightarrow> wf_response resp) h"
proof -
  have state: "wp (set_interface_state_libnl K nm n b) (\<lambda>r _. wf_response r) t" for n b t
    unfolding set_interface_state_libnl_def
    by (auto simp: wp_rules Let_def intro!: wp_call_os_any)
  have rate: "wp (set_can_bitrate_libnl K nm n b) (\<lambda>r _. wf_response r) t" for n b t
    unfolding set_can_bitrate_libnl_def
    by (auto simp: wp_rules Let_def simp del: prefix_code intro!: wp_call_os_any)
  have exists: "wp (check_interface_exists K nm n) (\<lambda>r _. wf_response r) t" for n t
    unfolding check_interface_exists_def
    by (auto simp: wp_rules Let_def intro!: wp_call_os_any)
  have up: "wp (check_interface_is_up K nm n) (\<lambda>r _. wf_response r) t" for n t
    unfolding check_interface_is_up_def
    by (auto simp: wp_rules Let_def intro!: wp_call_os_any)
  have vcan: "wp (create_vcan_request K n) (\<lambda>r _. wf_response r) t" for n t
    unfolding create_vcan_request_def
    by (auto simp: wp_rules Let_def split: sum.split
        intro!: wp_any [where m = "create_vcan_interface_if_not_exists K n"])
  have later: "wp (rate_then_state K nm n b u) (\<lambda>r _. wf_response r) t" for n b u t
    unfolding rate_then_state_def wp_rules
    by (rule wp_conseq [OF rate]) (auto simp: wp_rules intro!: state)
  have set_state: "wp (set_state_request K nm req n) (\<lambda>r _. wf_response r) t" for n t
    unfolding set_state_request_stages wp_rules
    by (auto split: option.splits
        intro!: state later wp_conseq [OF up] wp_any [where m = "bring_down K nm n u" for u])
  show ?thesis
    unfolding process_request_def with_name_def wp_rules
    by (auto simp: wp_rules split: option.split RequestType.split
        intro!: wp_conseq [OF set_state] wp_conseq [OF vcan] wp_conseq [OF exists]
          wp_conseq [OF up])
qed

lemma servesD:
  assumes "serves K nm KC"
    and "rv (respond KC ((Posix (Select fd sec usec), r4) # (Posix (Send fd bytes), r3) # h)
           (Posix (Recv fd sizeof_NetlinkResponse))) = int sizeof_NetlinkResponse"
  shows "processed K nm (decode_request bytes) (decode_response (buf (respond KC
      ((Posix (Select fd sec usec), r4) # (Posix (Send fd bytes), r3) # h)
      (Posix (Recv fd sizeof_NetlinkResponse))))) (\<lambda>_. True)"
proof -
  from assms obtain g resp g' where resp:
    "run_state (process_request K nm (decode_request bytes)) g = (Some resp, g')"
    "buf (respond KC ((Posix (Select fd sec usec), r4) # (Posix (Send fd bytes), r3) # h)
       (Posix (Recv fd sizeof_NetlinkResponse))) = encode_response resp"
    unfolding serves_def by blast
  with wp_run [OF process_request_wf this(1)] show ?thesis
    by (auto simp: processed_def response.dec_enc)
qed

lemma send_request_served:
  assumes "serves K nm KC"
  shows "wp (send_request KC c req) (\<lambda>(res, _) _. \<forall>resp. res = Some (Inr resp) \<longrightarrow>
     processed K nm (decode_request (encode_request req)) resp (\<lambda>_. True)) h"
  unfolding send_request_def wp_rules
  by (rule wp_any [where m = "ensure_registered KC c"])
    (auto simp: wp_rules unix_send_def receive_def split: sum.split prod.split option.split
      intro!: wp_conseq [OF wp_initialize_client] wp_call_os_any
        wp_conseq [OF wp_unix_recv_reply] wp_any [where m = "unix_destroy KC s" for s],
     (auto simp: sizeof_defs Let_def intro!: servesD [OF assms, unfolded sizeof_defs, simplified])+)

lemma cstr_chars_take: "cstr_chars (take k s) = take k (cstr_chars s)"
  unfolding cstr_chars_def by (induction s arbitrary: k) (auto simp: take_Cons split: nat.split)

lemma c_str_ifr_name:
  "c_str (interface_name (mk_set_request n s f r)) = Some (ifr_name n)"
  "c_str (interface_name (mk_query_request op n)) = Some (ifr_name n)"
  by (simp_all add: ifr_name_def cstr_chars_take)

lemma request_operation:
  "type_of_code (operation (mk_set_request n s f r)) = Some SET_INTERFACE_STATE"
  by simp

lemma send_request_known:
  assumes "serves K nm KC" and "int_replies K"
  shows "wp (send_request KC c (mk_set_request name up fl rate)) (\<lambda>(res, _) _. \<forall>resp.
     res = Some (Inr resp) \<longrightarrow> result resp = 0 \<longrightarrow>
     processed K nm (mk_set_request name up fl rate) resp
       (\<lambda>g'. known_up g' (ifr_name name) = Some up)) h"
proof -
  have "wp (process_request K nm (mk_set_request name up fl rate)) (\<lambda>r g'. \<forall>resp. r = Some resp
      \<longrightarrow> result resp = 0 \<longrightarrow> known_up g' (ifr_name name) = Some up) g" for g
    unfolding process_set_state [OF request_operation c_str_ifr_name(1)] wp_rules
    by (rule wp_conseq [OF set_state_request_known [OF assms(2)]]) simp
  note known = wp_conseq [OF this]
  have "processed K nm (mk_set_request name up fl rate) resp (\<lambda>g'. known_up g' (ifr_name name) = Some up)"
    if "processed K nm (mk_set_request name up fl rate) resp (\<lambda>_. True)" and "result resp = 0" for resp
    by (rule processed_conseq [OF that(1)]) (rule known, use that(2) in auto)
  then show ?thesis
    by (intro wp_conseq [OF send_request_served [OF assms(1)]]) (auto simp: request.dec_enc)
qed

text \<open>The same for the question whether an interface is up.\<close>

lemma send_request_is_up:
  assumes "serves K nm KC"
  shows "wp (send_request KC c (mk_query_request INTERFACE_IS_UP name)) (\<lambda>(res, _) _. \<forall>resp.
     res = Some (Inr resp) \<longrightarrow> result resp = 0 \<longrightarrow> is_up resp \<longrightarrow>
     processed K nm (mk_query_request INTERFACE_IS_UP name) resp
       (\<lambda>g'. known_up g' (ifr_name name) = Some True)) h"
proof -
  let ?q = "mk_query_request INTERFACE_IS_UP name"
  have "wp (process_request K nm ?q) (\<lambda>r g'. \<forall>resp. r = Some resp
      \<longrightarrow> result resp = 0 \<longrightarrow> is_up resp \<longrightarrow> known_up g' (ifr_name name) = Some True) g" for g
    unfolding process_request_def request_fields type_of_code_type_code option.case RequestType.case
      with_name_def c_str_ifr_name wp_rules
    by (rule wp_conseq [OF check_interface_is_up_spec]) (auto split: if_splits)
  note known = wp_conseq [OF this]
  have "processed K nm ?q resp (\<lambda>g'. known_up g' (ifr_name name) = Some True)"
    if "processed K nm ?q resp (\<lambda>_. True)" and "result resp = 0" and "is_up resp" for resp
    by (rule processed_conseq [OF that(1)]) (rule known, use that(2,3) in auto)
  then show ?thesis
    by (intro wp_conseq [OF send_request_served [OF assms]]) (auto simp: request.dec_enc)
qed

lemma set_interface_state_served:
  assumes "serves K nm KC" and "int_replies K"
  shows "wp (set_interface_state KC c name up rate) (\<lambda>(r, c') h'.
     r = Some (Inr ()) \<and> shell h' = shell h \<longrightarrow>
     (\<exists>resp. processed K nm (mk_set_request name up (prefix ''can'' name \<and> up) rate) resp
        (\<lambda>g. known_up g (ifr_name name) = Some up))) h"
  unfolding set_interface_state_def wp_rules Let_def
  by (rule wp_conseq [OF wp_conj [OF send_request_known [OF assms] keepsD [OF send_request_shell]]])
    (auto simp: wp_rules ran_def simp del: prefix_code split: prod.splits option.split sum.split
      intro!: wp_conseq [OF fallback_runs_commands])

subsection \<open>Bringing an interface up\<close>

text \<open>Only the setting of a state may use the shell, and it runs no fewer commands than before.\<close>

lemma shell_ipc [keeps_rules]:
  "unchanged shell (ipc_exists K m n)" "unchanged shell (ipc_create_vcan K m n)"
  unfolding ipc_exists_def ipc_create_vcan_def interface_exists_def create_vcan_interface_def
  by (intro keeps_rules send_request_shell)+

lemma shell_start: "unchanged shell (Frame_Dispatcher.start K fuel d)"
proof -
  have "unchanged shell (flush_loop K fuel fd)" for fd
    by (induction fuel) (auto intro!: keeps_rules unchanged_call)
  then show ?thesis
    unfolding start_def ensure_connected_def epoll_fd_add_sock_fd_def flush_def Let_def
    by (intro keeps_rules unchanged_call; simp)
qed

lemma ipc_set_served:
  assumes "serves K nm KC" and "int_replies K"
  shows "wp (ipc_set KC m name up rate) (\<lambda>(r, m') h'.
     r = Some (Inr ()) \<and> shell h' = shell h \<longrightarrow>
     (\<exists>resp. processed K nm (mk_set_request name up (prefix ''can'' name \<and> up) rate) resp
        (\<lambda>g. known_up g (ifr_name name) = Some up))) h"
  unfolding ipc_set_def ipc_call_def ensure_initialized_def
  by (auto simp: wp_rules Let_def simp del: prefix_code split: option.split
      intro!: wp_conseq [OF set_interface_state_served [OF assms]])

text \<open>What it means that an interface has been brought up through the daemon.\<close>

definition brought_up :: "os \<Rightarrow> netlink_manager \<Rightarrow> can_interface \<Rightarrow> 32 word \<Rightarrow> bool" where
  "brought_up K nm i rate \<longleftrightarrow>
     (\<exists>resp. processed K nm (mk_set_request (iface_name i) True (prefix ''can'' (iface_name i)) rate) resp
        (\<lambda>g. known_up g (ifr_name (iface_name i)) = Some True))"

lemma set_and_start_served:
  assumes "serves K nm KC" and "int_replies K"
  shows "wp (set_and_start KC fuel m i rate) (\<lambda>(r, m', i') h'.
     r = Some (Inr ()) \<and> shell h' = shell h \<longrightarrow> brought_up K nm i rate) h"
  unfolding set_and_start_def brought_up_def wp_rules
  by (rule wp_conseq [OF ipc_set_served [OF assms]])
    (auto simp: wp_rules simp del: prefix_code split: option.splits sum.splits
      intro!: wp_conseq [OF keepsD [OF shell_start]])

lemma interface_up_served:
  assumes "serves K nm KC" and "int_replies K"
  shows "wp (interface_up KC fuel T m i rate) (\<lambda>(r, m', i') h'.
     r = Some (Inr ()) \<and> shell h' = shell h \<longrightarrow> brought_up K nm i rate) h"
  unfolding interface_up_def
  by (auto simp: wp_rules split: option.split sum.split InterfaceType.split
      intro!: wp_conseq [OF keepsD [OF shell_ipc(1)]] wp_conseq [OF keepsD [OF shell_ipc(2)]]
        wp_conseq [OF set_and_start_served [OF assms]])

subsection \<open>A joined environment\<close>

text \<open>
  An environment of the library that is joined to a daemon: it computes what is received from
  what was sent, by running the daemon's handlers.
\<close>

fun last_sent :: "history \<Rightarrow> byte list" where
  "last_sent (_ # (Posix (Send _ b), _) # _) = b"
| "last_sent _ = []"

definition joined_os :: "os \<Rightarrow> os" where
  "joined_os K = sample_os\<lparr>respond := (\<lambda>h c. case c of
       Posix (Recv _ n) \<Rightarrow>
         (if n = 68 then (plain_reply 68)\<lparr>buf := encode_register_response (mk_register_response 0
              (generate_client_channel_name (client_pid (decode_register_request (last_sent h)))))\<rparr>
          else case fst (run_state (process_request K mk_netlink_manager
                 (decode_request (last_sent h))) []) of
              Some resp \<Rightarrow> (plain_reply 264)\<lparr>buf := encode_response resp\<rparr>
            | None \<Rightarrow> plain_reply 0)
     | _ \<Rightarrow> respond sample_os h c)\<rparr>"

lemma serves_joined: "serves K mk_netlink_manager (joined_os K)"
proof -
  have run: "\<exists>g resp'. (\<exists>g'. run_state m g = (Some resp', g')) \<and> encode_response resp = encode_response resp'"
    if "fst (run_state m []) = Some resp" for m :: "NetlinkResponse option io" and resp
    using that by (metis prod.collapse)
  show ?thesis
    unfolding serves_def joined_os_def
    by (auto simp: sizeof_defs intro: run split: option.splits)
qed

lemma enrols_joined:
  "enrols sample_os bare_daemon (mk_accepted_socket 4 ''/run/hycan_daemon'') [] (joined_os K)"
proof -
  have short: "\<not> 97 \<le> length (generate_client_channel_name pid)" for pid
    using length_channel_name [of pid] by simp
  show ?thesis
    unfolding enrols_def joined_os_def handle_client_registration_def send_registration_def
      unix_send_def initialize_def setup_address_def mk_session_def mk_unix_socket_def
      mk_accepted_socket_def bare_daemon_def sample_os_def
    by (auto simp: sizeof_defs Let_def sun_path_size_def short)
qed

lemma joined_connects:
  "length p < 97 \<Longrightarrow> wp (initialize (joined_os K) (mk_unix_socket p CLIENT))
     (\<lambda>(ok, s) _. ok \<and> connected s \<and> socket_fd s \<noteq> -1) h"
  unfolding initialize_def mk_unix_socket_def setup_address_def
  by (auto simp: wp_rules Let_def joined_os_def sample_os_def sun_path_size_def intro!: wp_call_os)

lemma joined_takes:
  "connected s \<Longrightarrow> socket_fd s \<noteq> -1 \<Longrightarrow> wp (unix_send (joined_os K) s b)
     (\<lambda>n h'. \<not> n < 0 \<and> (\<exists>r. h' = (Posix (Send (socket_fd s) b), r) # h)) h"
  unfolding unix_send_def
  by (auto simp: wp_rules joined_os_def sample_os_def intro!: wp_call_os)

lemma joined_answers:
  "connected s \<Longrightarrow> socket_fd s \<noteq> -1
     \<Longrightarrow> fst (run_state (process_request K mk_netlink_manager (decode_request b)) []) = Some resp
     \<Longrightarrow> wp (unix_recv (joined_os K) s sizeof_NetlinkResponse 5000)
           (\<lambda>r _. r = (264, encode_response resp)) ((Posix (Send (socket_fd s) b), r) # h)"
  unfolding unix_recv_def wait_readable_def
  by (auto simp: wp_rules joined_os_def sample_os_def sizeof_defs intro!: wp_call_os)

lemma joined_serves:
  assumes "registered c" and "length (client_channel c) < 97" and "wf_request q" and "wf_response resp"
    and "fst (run_state (process_request K mk_netlink_manager q) []) = Some resp"
  shows "wp (send_request (joined_os K) c q) (\<lambda>(res, _) _. res = Some (Inr resp)) h"
proof -
  have "fst (run_state (process_request K mk_netlink_manager
      (decode_request (encode_request q))) []) = Some resp"
    using assms(3,5) by (simp add: request.dec_enc)
  note answer = joined_answers [OF _ _ this]
  show ?thesis
    unfolding send_request_def ensure_registered_again [OF assms(1)] wp_rules
    using assms(2,4)
    by (auto simp: wp_rules receive_def sizeof_NetlinkResponse_def response.dec_enc split: prod.splits
        intro!: wp_conseq [OF joined_connects] wp_conseq [OF joined_takes]
          wp_conseq [OF answer [unfolded sizeof_NetlinkResponse_def]]
          wp_any [where m = "unix_destroy (joined_os K) s" for s])
qed

text \<open>A client that is registered, and the first request of an application.\<close>

definition client_7 :: netlink_client where
  "client_7 = \<lparr>client_channel = ''HyCAN_Client_7'', registered = True\<rparr>"

lemma client_7_asks:
  "wp (send_request (joined_os coherent_os) client_7 (mk_query_request INTERFACE_EXISTS ''can0''))
     (\<lambda>(res, c') h'. res = Some (Inr (mk_query_response 0 True False)) \<and> c' = client_7
        \<and> shell h' = shell h) h"
proof -
  let ?q = "mk_query_request INTERFACE_EXISTS ''can0''"
  have "fst (run_state (process_request coherent_os mk_netlink_manager ?q) [])
      = Some (mk_query_response 0 True False)"
    by (simp add: process_request_def request_fields type_of_code_type_code with_name_def
        c_str_ifr_name netlink_op_defs coherent_os_def sample_os_def cstr_chars_def)
  from joined_serves [OF _ _ _ _ this] have "wp (send_request (joined_os coherent_os) client_7 ?q)
      (\<lambda>(res, _) _. res = Some (Inr (mk_query_response 0 True False))) h"
    by (simp add: client_7_def)
  from wp_conj [OF this wp_conj [OF send_request_client [where c = client_7] keepsD [OF send_request_shell]]]
  show ?thesis
    by (rule wp_conseq) (auto simp: client_7_def)
qed

lemma client_7_sets:
  "wp (set_interface_state (joined_os coherent_os) client_7 ''can0'' True 500000) (\<lambda>(r, c') h'.
     r = Some (Inr ()) \<and> shell h' = shell h) h"
proof -
  have "wp (send_request (joined_os coherent_os) client_7
        (mk_set_request ''can0'' True (prefix ''can'' ''can0'' \<and> True) 500000))
      (\<lambda>(res, _) _. res = Some (Inr (mk_response 0 ''Success''))) h"
    by (rule joined_serves) (simp_all add: client_7_def coherent_can0_up)
  from wp_conj [OF this keepsD [OF send_request_shell]] show ?thesis
    unfolding set_interface_state_def wp_rules Let_def
    by (rule wp_conseq) (auto simp: wp_rules)
qed

text \<open>The manager of an application that has made its client, and an interface of it.\<close>

definition ipc_7 :: ipc_manager where
  "ipc_7 = mk_ipc_manager\<lparr>ipc_client := Some client_7, initialized := True\<rparr>"

definition interface_can0 :: can_interface where
  "interface_can0 = \<lparr>iface_name = ''can0'', iface_dispatcher = listening_dispatcher,
     iface_sender = mk_can_sender ''can0''\<rparr>"

lemma joined_os_starts:
  "wp (Frame_Dispatcher.start (joined_os K) (Suc n) d) (\<lambda>(r, _) _. r = Some (Inr ())) h"
  unfolding start_def ensure_connected_def epoll_fd_add_sock_fd_def flush_def
  by (auto simp: wp_rules Let_def joined_os_def sample_os_def split: if_splits intro!: wp_call_os)

lemma interface_can0_up:
  "wp (interface_up (joined_os coherent_os) 1 CAN ipc_7 interface_can0 500000)
     (\<lambda>(r, m', i') h'. r = Some (Inr ()) \<and> shell h' = shell h) h"
proof -
  have found: "wp (ipc_exists (joined_os coherent_os) ipc_7 ''can0'')
      (\<lambda>(r, m) t. r = Some (Inr True) \<and> m = ipc_7 \<and> shell t = shell h) h"
    unfolding ipc_exists_def ipc_call_def ensure_initialized_def interface_exists_def
    by (auto simp: wp_rules ipc_7_def mk_ipc_manager_def intro!: wp_conseq [OF client_7_asks])
  have set: "wp (ipc_set (joined_os coherent_os) ipc_7 ''can0'' True 500000)
      (\<lambda>(r, _) t'. r = Some (Inr ()) \<and> shell t' = shell t) t" for t
    unfolding ipc_set_def ipc_call_def ensure_initialized_def ipc_7_def
    by (auto simp: wp_rules intro!: wp_conseq [OF client_7_sets])
  have start: "wp (Frame_Dispatcher.start (joined_os coherent_os) (Suc 0) d)
      (\<lambda>(r, _) t'. r = Some (Inr ()) \<and> shell t' = shell t) t" for d t
    using wp_conj [OF joined_os_starts [where n = 0] keepsD [OF shell_start]]
    by (rule wp_conseq) auto
  show ?thesis
    unfolding interface_up_def set_and_start_def
    by (auto simp: wp_rules interface_can0_def intro!: wp_conseq [OF found] wp_conseq [OF set]
        wp_conseq [OF start])
qed

lemma streams_open_joined: "streams_open (joined_os K)"
  by (simp add: streams_open_def joined_os_def sample_os_def)

text \<open>An environment of the daemon in which the interface is up, and the query of it.\<close>

definition up_os :: os where
  "up_os = coherent_os\<lparr>respond := (\<lambda>h c. case c of
       Nl (LinkGetFlags _) \<Rightarrow> plain_reply IFF_UP
     | _ \<Rightarrow> respond coherent_os h c)\<rparr>"

lemma client_7_told_up:
  "wp (send_request (joined_os up_os) client_7 (mk_query_request INTERFACE_IS_UP ''can0''))
     (\<lambda>(res, _) _. res = Some (Inr (mk_query_response 0 True True))) h"
proof (rule joined_serves)
  show "fst (run_state (process_request up_os mk_netlink_manager
      (mk_query_request INTERFACE_IS_UP ''can0'')) []) = Some (mk_query_response 0 True True)"
    by (simp add: process_request_def request_fields type_of_code_type_code with_name_def
        c_str_ifr_name netlink_op_defs up_os_def coherent_os_def sample_os_def cstr_chars_def
        flag_up_def)
qed (simp_all add: client_7_def)

lemma interface_can0_told_up:
  "wp (iface_is_up (joined_os up_os) ipc_7 interface_can0) (\<lambda>(r, m') _. r = Some (Inr True)) h"
  unfolding iface_is_up_def ipc_is_up_def ipc_call_def ensure_initialized_def interface_is_up_def
  by (auto simp: wp_rules ipc_7_def mk_ipc_manager_def interface_can0_def
      intro!: wp_conseq [OF client_7_told_up])

end
