(* ===== verification/Spec2Isabelle.thy ===== *)
theory Spec2Isabelle
  imports HyCAN_Prelude HyCAN_OS Error_Types Messages Unix_Socket Vcan Netlink_Manager
    Netlink_Client Ipc_Manager Can_Socket Can_Sender Spin_Lock Frame_Dispatcher Can_Interface
    Daemon_Sessions Session_Worker Guarded_Table Shutdown_Locks Daemon_Turns
    Session_Race Manager_Race Latency_Stats Example_Programs Joined_Programs
begin

text \<open>
  HyCAN brings CAN interfaces up and down and sends and receives CAN frames. It is two programs:

  \<^item> a \<^emph>\<open>daemon\<close> (\<open>src/Daemon\<close>), which runs as root, owns a netlink socket, and changes network
    interfaces for its clients;
  \<^item> a \<^emph>\<open>library\<close> (\<open>src/Interface\<close>) that an application links: it asks the daemon to change
    interfaces, and reads and writes frames on CAN sockets itself.

  They talk over Unix sockets in \<open>/run\<close>: a client registers on the daemon's main socket with its
  process number and is given a channel of its own, a socket with a worker thread behind it, on
  which it makes one connection per request. Frames do not pass through the daemon: a thread of
  the library reads them with \<open>epoll\<close> and calls the callback registered for their identifier,
  under a spin lock.

  \<^bold>\<open>How the code is modelled.\<close> A structure or class is a record, an enumeration a datatype, an
  integer of a fixed width a word where its width matters, a \<open>std::string\<close> a string, a character
  array in a message a list of exactly its length. \<open>tl::expected\<close> is a sum with the error on the
  left; what the code leaves undefined, or a call that does not return, is \<open>None\<close> or a constructor
  of its own. A function with effects is a computation of \<open>State_Monad\<close> over a \<^emph>\<open>history\<close>, the list
  of all calls made to the kernel, to libnl and to the thread library with their replies, newest
  first (\<open>HyCAN_OS\<close>). What these reply is a parameter \<open>K\<close> of every definition: a function of the
  history and the call. So a theorem holds whatever they reply, a failure of any call included,
  unless it names what it assumes: \<open>streams_open\<close> (\<open>socket\<close> returns -1 or a positive
  descriptor, as it does while the standard streams are open), \<open>int_replies\<close> (libnl's results are
  not below the smallest \<open>int\<close>), \<open>cache_coherent\<close> (a refilled link cache shows what was last changed). Statements about effects
  are weakest preconditions, \<open>wp m Q h\<close> (\<open>HyCAN_Prelude\<close>); \<open>unchanged\<close> and \<open>keeps\<close> say that a
  computation leaves a view of the history, or a count of open handles, as it was, with
  \<open>keeps_rules\<close> as the collection that proves it.

  \<^bold>\<open>Theories, in the order of their dependence.\<close>

  \<^item> \<open>HyCAN_Prelude\<close>: the calculus, C strings, decimal formatting. \<open>HyCAN_OS\<close>: calls, replies,
    histories, the ledgers of open descriptors and live threads. \<open>Error_Types\<close>: \<open>Util/Error.hpp\<close>.
  \<^item> \<open>Messages\<close> (\<open>Daemon/Message.hpp\<close>): the four structures, their constructors and their bytes;
    locale \<open>wire_format\<close> gives what a reader of bytes relies on.
  \<^item> \<open>Unix_Socket\<close> (\<open>UnixSocket.hpp\<close>, \<open>.cpp\<close>): every operation; locale \<open>scoped_handle\<close> for an
    object that owns a descriptor from its initialisation to its destruction.
  \<^item> \<open>Vcan\<close> (\<open>VCAN.cpp\<close>), \<open>Netlink_Manager\<close> (\<open>NetlinkManager.cpp\<close>): the daemon's operations on links;
    \<open>known_up\<close> is what a history shows of the state of a link, \<open>applied\<close> the changes made; locale
    \<open>request_processor\<close> for what a worker relies on.
  \<^item> \<open>Daemon_Sessions\<close> (\<open>Daemon.cpp\<close>, \<open>main.cpp\<close>): registration, a turn of each loop, the sweep,
    shutdown, \<open>main\<close>; \<open>daemon_step\<close> interleaves the threads by turns. \<open>Session_Worker\<close>: the loops as
    wholes, and an abstract table of sessions that the daemon refines, whose steps are determined by
    what the daemon learnt (\<open>seen\<close>: registrations, requests, times, what \<open>kill\<close> answered).
    \<open>Shutdown_Locks\<close>: the same
    threads once more, with every lock, join and flag a step, for the questions whether they
    block, whether a worker outlives its session and whether they end. \<open>Daemon_Turns\<close>: each turn
    of the former is a run of the latter that starts and joins the same workers and sends where the
    turn does (\<open>deeds\<close>, \<open>performs\<close>), between the states \<open>threads_of\<close> gives the threads between turns.
    Which sessions a sweep ends is a choice in the latter; \<open>Session_Worker\<close> says which.
    \<open>Session_Race\<close>: one session between its worker and the sweep, every statement a step, with the
    clock and the time stamp.
  \<^item> \<open>Netlink_Client\<close> (\<open>NetlinkClient.cpp\<close>), \<open>Ipc_Manager\<close> (\<open>IPCManager.cpp\<close>): the library's side of
    a request, with an undefined read of a reply as the result \<open>None\<close>; locale \<open>daemon_link\<close> for an object that registers once. \<open>Manager_Race\<close>: the
    initialisation of \<open>IPCManager.cpp\<close> access by access, for threads that share the singleton.
  \<^item> \<open>Can_Socket\<close> (\<open>Socket.cpp\<close>), \<open>Can_Sender\<close> (\<open>Sender.hpp\<close>), \<open>Spin_Lock\<close> (\<open>SpinLock.hpp\<close>),
    \<open>Frame_Dispatcher\<close> (\<open>Dispatcher.hpp\<close>, \<open>.cpp\<close>), \<open>Can_Interface\<close> (\<open>Interface.cpp\<close>): sending and
    receiving; locales \<open>reconnectable\<close>, \<open>mutex\<close> and \<open>callback_table\<close>. \<open>Guarded_Table\<close>: registration
    and the call of a callback access by access under the spin lock. \<open>Latency_Stats\<close>: the
    statistics of the build option \<open>HYCAN_LATENCY_TEST\<close>. \<open>Example_Programs\<close>: the two programs of
    \<open>src/example\<close> as compositions of the interface's operations; locale \<open>client_blind\<close> for views of
    a history that talking to the daemon does not change.
  \<^item> \<open>Joined_Programs\<close>: what it means that an environment of the library is joined to the daemon
    (\<open>enrols\<close>, \<open>serves\<close>), and a registration and a request followed through both programs. This
    theory states the results.

  \<^bold>\<open>What is shown.\<close> Of the two programs together: a request that reports success was carried
  out by the daemon, a registration yields the channel the daemon listens on, an interface that is brought up is
  up on the daemon's side and listening on the library's, and a frame that was sent reaches the one callback of
  its identifier. Of the daemon: its sessions stay well-formed through every interleaving of its threads, it
  refines an abstract table in which exactly the dead and the idle are dropped, every complete request is answered once and in order, dead sessions are swept, no
  handle and no descriptor is left at the end, a bitrate is never applied to an interface that is up, its
  threads block one another only when a signal interrupts a registration, no worker runs on a session that is
  gone, a client that stays active keeps its session, a session that is erased owes no answer, and a
  daemon told to stop outside a registration ends within nineteen steps and eight for each session. Of the
  library: results are what the daemon answered, and undefined exactly where a reply without a terminator was
  read, a refusal of the daemon is never overridden by the shell, a send is retried exactly where the code means
  it and on a new connection,
  frames meet whole registrations, the spin lock excludes, threads may share the manager once it is initialised,
  the dispatcher's thread ends when it is told to. Where the code does not do what it means to, the theorem
  states what it does (\<open>failed_registration_wedges\<close>, \<open>name_read_defined\<close>,
  \<open>signal_in_registration_wedges\<close>, \<open>concurrent_first_calls_destroy_client\<close>,
  \<open>session_dropped_at_work\<close>, \<open>interface_descriptors\<close> and others).

  \<^bold>\<open>Bounds and fuel.\<close> \<open>flush\<close> reads until a read fails, which nothing bounds: it
  takes fuel and \<open>None\<close> is a flush that did not end (of \<open>start\<close> and \<open>up\<close>,
  also a thread that could not be started, which ends the process); \<open>flush_returns\<close> gives the fuel
  that is enough. The receiving loop \<open>reap_loop\<close> takes the number of its turns,
  \<open>Running\<close> being a loop not yet ended; \<open>stop_request_ends_loop\<close> gives the turn at
  which it ends. \<open>run\<close> of the daemon takes the number of turns before the signal,
  \<open>client_session_worker\<close> and \<open>session_cleanup_worker\<close> the values their loop
  conditions read; every theorem is for all of these. Everything else is structural recursion. In
  \<open>Shutdown_Locks\<close> \<open>work_left\<close> bounds the steps after the flag is down, and \<open>work_left_sessions\<close> bounds it
  by the number of sessions.

  \<^bold>\<open>Not modelled.\<close> Console output, with one consequence: a worker prints the name in a
  request, so for a name without a terminator its undefined read comes even before
  \<open>process_request\<close>, and for every operation. Exceptions that only memory exhaustion or a
  formatting failure raises, with their handlers; an exception thrown by a callback. A \<open>bool\<close>
  received from a socket whose byte is neither 0 nor 1, which is read as true. The overflow of the signed
  subtraction in the latency test (\<open>Dispatcher.cpp\<close>, lines 158 to 162), which is undefined for a time stamp
  more than 292 years away from the clock: \<open>record_latency\<close> subtracts modulo two to the 64, as compiled code
  does. Memory orderings weaker than
  sequential consistency, and what the data race on \<open>last_activity\<close> means in C++, beyond the
  interleavings of \<open>Session_Race\<close>; threads that are inside one \<open>NetlinkClient\<close>, or one
  \<open>Interface\<close> other than its table of callbacks, at the same time. How long \<open>accept\<close>,
  \<open>recv\<close>, \<open>sleep_for\<close> and a join take. Limits of \<open>FD_SET\<close>. A signal
  handled by another thread than the main one, or a second one while the first is handled. Operations of an
  interface that its own callback calls. A string view without a terminator given to the library. The concept
  \<open>CanFrameConvertible\<close>, which has no code: the conversion of a user's type is the parameter
  \<open>to_frame\<close>. What a callback does: calling it is an event. The tests and the build.
\<close>

section \<open>Properties that span components\<close>

text \<open>C2: When a client's registration succeeds, the daemon has filed a well-formed session under
  the client's process, and the channel the client has stored is that session's: the path the
  client will connect to is the one the session's socket listens on. This holds for a new
  client and for one the daemon knew before.\<close>

theorem registration_end_to_end:
  assumes "enrols K d conn g KC" and "sessions_wf (client_sessions d)" and "\<not> registered c"
  shows "wp (ensure_registered KC c) (\<lambda>(r, c') _. r = Some (Inr ()) \<longrightarrow>
     (\<exists>t. enrolled K d conn g (word_of_int (rv (respond KC t (Thr Getpid)))) c')) h"
  using assms(3) unfolding ensure_registered_def unix_send_def
  by (auto simp: wp_rules receive_def register_response.dec_enc channel_read
      split: prod.split
      intro!: wp_conseq [OF wp_initialize_client] wp_call_os
        wp_conseq [OF registration_received [OF assms(1,2), where c = c]]
        wp_any [where m = "unix_destroy KC s" for s],
     blast+)

theorem registration_end_to_end_witness:
  "wp (ensure_registered (joined_os coherent_os) mk_netlink_client) (\<lambda>(r, c') _. r = Some (Inr ()) \<longrightarrow>
     (\<exists>t. enrolled sample_os bare_daemon (mk_accepted_socket 4 ''/run/hycan_daemon'') []
           (word_of_int (rv (respond (joined_os coherent_os) t (Thr Getpid)))) c')) []"
  by (rule registration_end_to_end [OF enrols_joined])
    (simp_all add: sessions_wf_def bare_daemon_def mk_netlink_client_def)

text \<open>The name the daemon acts on and the name a CAN socket is bound to are the same: both
  sides keep fifteen characters up to the first NUL. Whether a bitrate is set is decided by the
  library on the full name and by the daemon on that prefix, with the same answer. Only the
  shell fallback is given the full name.\<close>

theorem names_agree:
  "c_str (interface_name (mk_set_request name up fl rate)) = Some (ifr_name name)
   \<and> c_str (interface_name (mk_query_request op name)) = Some (ifr_name name)
   \<and> prefix ''can'' (ifr_name name) = prefix ''can'' name
   \<and> length (ifr_name name) \<le> 15
   \<and> fallback_commands name up rate = (if prefix ''can'' (ifr_name name) \<and> up
        then [''sudo ip link set '' @ name @ '' type can bitrate '' @ dec_nat (unat rate)] else [])
        @ [''sudo ip link set '' @ name @ (if up then '' up'' else '' down'')]"
proof -
  have same: "prefix ''can'' (ifr_name name) = prefix ''can'' name"
    by (cases name; cases "tl name"; cases "tl (tl name)") (auto simp: ifr_name_def cstr_chars_def)
  have "length (ifr_name name) \<le> 15"
    by (simp add: ifr_name_def cstr_chars_take)
  then show ?thesis
    using c_str_ifr_name same by (auto simp: fallback_commands_def simp del: prefix_code)
qed

text \<open>C1: A client's request that the daemon answered is carried out: when \<open>set_interface_state\<close>
  reports success without the shell, and the answer came from a daemon that serves the
  client, then the daemon has left the interface in the state asked for. The bytes of the
  request and of the response, the truncation of the name and the order of the daemon's changes
  are all on this path.\<close>

theorem set_state_end_to_end:
  assumes "serves K nm KC" and "int_replies K"
  shows "wp (set_interface_state KC c name up rate) (\<lambda>(r, c') h'.
     r = Some (Inr ()) \<and> shell h' = shell h \<longrightarrow>
     (\<exists>resp. processed K nm (mk_set_request name up (prefix ''can'' name \<and> up) rate) resp
        (\<lambda>g. known_up g (ifr_name name) = Some up))) h"
  by (rule set_interface_state_served [OF assms])

theorem set_state_end_to_end_witness:
  "wp (set_interface_state (joined_os coherent_os) client_7 ''can0'' True 500000) (\<lambda>(r, c') h'. r = Some (Inr ())
     \<and> (\<exists>resp. processed coherent_os mk_netlink_manager
          (mk_set_request ''can0'' True (prefix ''can'' ''can0'' \<and> True) 500000) resp
          (\<lambda>g. known_up g (ifr_name ''can0'') = Some True))) []"
  by (rule wp_conseq [OF wp_conj [OF client_7_sets
        set_state_end_to_end [OF serves_joined int_replies_coherent]]]) auto

text \<open>C3: Bringing an interface up means what it says on both sides of the socket: when \<open>up\<close> reports
  success, the interface's thread runs and its CAN socket is connected in this process, and,
  unless the shell had to be used, the daemon has processed a request for this interface with
  this bitrate and has left it up.\<close>

theorem up_end_to_end:
  assumes "serves K nm KC" and "int_replies K" and "streams_open KC"
  shows "wp (interface_up KC fuel T m i rate) (\<lambda>(r, m', i') h'. r = Some (Inr ()) \<longrightarrow>
     joinable (iface_dispatcher i') \<and> 0 < sock_fd (can_sock (iface_dispatcher i'))
     \<and> (shell h' = shell h \<longrightarrow> (\<exists>resp. processed K nm
          (mk_set_request (iface_name i) True (prefix ''can'' (iface_name i)) rate) resp
          (\<lambda>g. known_up g (ifr_name (iface_name i)) = Some True)))) h"
  by (rule wp_conseq [OF wp_conj [OF interface_up_served [OF assms(1,2)]
        up_success_is_listening [OF assms(3)]]])
    (auto simp: brought_up_def)

theorem up_end_to_end_witness:
  "wp (interface_up (joined_os coherent_os) 1 CAN ipc_7 interface_can0 500000)
     (\<lambda>(r, m', i') h'. r = Some (Inr ())
     \<and> joinable (iface_dispatcher i') \<and> 0 < sock_fd (can_sock (iface_dispatcher i'))
     \<and> (\<exists>resp. processed coherent_os mk_netlink_manager
          (mk_set_request ''can0'' True (prefix ''can'' ''can0'') 500000) resp
          (\<lambda>g. known_up g (ifr_name ''can0'') = Some True))) []"
  by (rule wp_conseq [OF wp_conj [OF interface_can0_up
        up_end_to_end [OF serves_joined int_replies_coherent streams_open_joined]]])
    (auto simp: interface_can0_def)

text \<open>C25: An interface that says it is up was seen up by the daemon: the answer \<open>true\<close> of \<open>is_up\<close>
  comes from a query of this interface that the daemon processed, and at the end of it the last
  thing the daemon had seen or done to the interface left it up.\<close>

theorem is_up_end_to_end:
  assumes "serves K nm KC"
  shows "wp (iface_is_up KC m i) (\<lambda>(r, m') h'. r = Some (Inr True) \<longrightarrow>
     (\<exists>resp. processed K nm (mk_query_request INTERFACE_IS_UP (iface_name i)) resp
        (\<lambda>g. known_up g (ifr_name (iface_name i)) = Some True))) h"
  unfolding iface_is_up_def ipc_is_up_def ipc_call_def ensure_initialized_def interface_is_up_def
  by (auto simp: wp_rules split: option.splits sum.splits
      intro!: wp_conseq [OF send_request_is_up [OF assms]], blast+)

theorem is_up_end_to_end_witness:
  "wp (iface_is_up (joined_os up_os) ipc_7 interface_can0) (\<lambda>(r, m') h'. r = Some (Inr True) \<and>
     (\<exists>resp. processed up_os mk_netlink_manager (mk_query_request INTERFACE_IS_UP ''can0'') resp
        (\<lambda>g. known_up g (ifr_name ''can0'') = Some True))) []"
  by (rule wp_conseq [OF wp_conj [OF interface_can0_told_up is_up_end_to_end [OF serves_joined]]])
    (auto simp: interface_can0_def)

text \<open>C4: What one side sends is what the other side's callback gets: when \<open>send\<close> reports success,
  the last bytes the kernel took from this program are the frame's, and a dispatcher whose
  socket delivers these bytes gives exactly the converted frame to the callback registered for
  its identifier, and to no other.\<close>

theorem frame_end_to_end:
  assumes "wf_frame (to_frame x)" and "dispatcher_wf d" and "\<not> lock_flag d"
    and "callback_for (funcs d) (unat (can_id (to_frame x))) = Some cb"
    and "fd \<noteq> thread_event_fd d"
    and "\<And>bytes h. rv (respond (K' bytes) h (Posix (Read fd 16))) = int (length bytes)
        \<and> buf (respond (K' bytes) h (Posix (Read fd 16))) = bytes"
  shows "wp (can_send K to_frame s x) (\<lambda>(r, s') h1. r = Inr () \<longrightarrow>
     wp (handle_event (K' (hd (sent h1))) d (fd, EPOLLIN)) (\<lambda>(res, d') h2.
        res = Continue \<and> delivered h2 = (cb, to_frame x) # delivered t) t) h"
proof -
  let ?f = "to_frame x" and ?b = "encode_frame (to_frame x)"
  have small: "\<not> max_std_can_id \<le> unat (can_id ?f)"
    using assms(2,4) by (auto simp: callback_for_def dispatcher_wf_def split: if_splits)
  have serve: "wp (do { d \<leftarrow> record_latency (K' ?b) d ?f; dispatch (K' ?b) d ?f })
      (\<lambda>(r, _) h'. r = Continue \<and> delivered h' = (cb, ?f) # delivered t) t" for t
    by (rule wp_conseq [OF wp_serve_frame [OF assms(2,3)]]) (use small assms(4) in \<open>auto simp: due_def\<close>)
  have "wp (handle_event (K' ?b) d (fd, EPOLLIN)) (\<lambda>(res, d') h2.
        res = Continue \<and> delivered h2 = (cb, ?f) # delivered t) t" for t
    unfolding handle_event_def sizeof_can_frame_def
    using assms(5,6) read_frame_full [OF assms(1)] frame.enc_length [OF assms(1)]
    by (auto simp: wp_rules Let_def sizeof_can_frame_def
        intro!: wp_call_os wp_conseq [OF serve [unfolded wp_bind]])
  then show ?thesis
    by (intro wp_conseq [OF wp_can_send_sent]) auto
qed

text \<open>An environment whose CAN descriptor delivers the given bytes.\<close>

definition delivering_os :: "byte list \<Rightarrow> os" where
  "delivering_os bytes = sample_os\<lparr>respond := (\<lambda>h c. case c of
       Posix (Read _ _) \<Rightarrow> (plain_reply (int (length bytes)))\<lparr>buf := bytes\<rparr>
     | _ \<Rightarrow> respond sample_os h c)\<rparr>"

theorem frame_end_to_end_witness:
  "wp (can_send sample_os (\<lambda>f. f) (mk_can_sender ''can0'') (zero_frame\<lparr>can_id := 1\<rparr>))
     (\<lambda>(r, s') h1. r = Inr () \<longrightarrow>
        wp (handle_event (delivering_os (hd (sent h1))) listening_dispatcher (12, EPOLLIN))
          (\<lambda>(res, d') h2. res = Continue
             \<and> delivered h2 = (9, zero_frame\<lparr>can_id := 1\<rparr>) # delivered []) []) []"
  by (rule frame_end_to_end)
    (simp_all add: wf_frame_def zero_frame_def delivering_os_def listening_dispatcher_simps
      listening_dispatcher_simps(5) [unfolded One_nat_def])

end
